theory Spec2Isabelle
  imports Main "HOL-Library.AList" "HOL-Library.Sublist" "HOL-Library.Word"
    "HOL-Library.Char_ord" "HOL-Library.List_Lexorder"
begin

section \<open>The file system under the cache directory\<close>

text \<open>
  \<^verbatim>\<open>Application::slotDeleteOnlineFiles\<close> and \<^verbatim>\<open>removeDirs\<close> (src/gui/application.cpp)
  work on the files below \<^verbatim>\<open>relative_prefix\<close>, the \<^verbatim>\<open>cachedFiles\<close> directory. The Qt calls
  they make (\<^verbatim>\<open>QDir::exists\<close>, \<^verbatim>\<open>QDir::entryInfoList\<close>, \<^verbatim>\<open>QFile::exists\<close>,
  \<^verbatim>\<open>QFile::remove\<close>, \<^verbatim>\<open>QFile::permissions\<close>, \<^verbatim>\<open>QFile::setPermissions\<close>) are modelled on a
  directory tree. A path is the list of its components, read from the cache directory:
  the \<^verbatim>\<open>QString\<close> \<^verbatim>\<open>docs/report.pdf\<close> is \<open>[''docs'', ''report.pdf'']\<close>.

  A regular file carries what decides the outcome of the calls made on it:
  \<^item> \<open>writeUser\<close>: the \<^verbatim>\<open>QFile::WriteUser\<close> bit of \<^verbatim>\<open>QFile::permissions\<close>;
  \<^item> \<open>inUse\<close>: the file is held open or otherwise blocked, so that \<^verbatim>\<open>QFile::remove\<close>
    fails whatever its permission bits are;
  \<^item> \<open>permsLocked\<close>: \<^verbatim>\<open>QFile::setPermissions\<close> fails on it.
  \<^verbatim>\<open>QFile::remove\<close> succeeds on a file that has the user write bit and is not in use; this
  is the behaviour the retry in \<^verbatim>\<open>removeDirs\<close> is written for (a read-only file is not
  removed until it is made writable). Nothing but the sweep changes the tree.
\<close>

type_synonym path = "string list"

record fattr =
  writeUser :: bool
  inUse :: bool
  permsLocked :: bool

datatype node = File fattr | Dir "(string \<times> node) list"

type_synonym entries = "(string \<times> node) list"

fun isDir :: "string \<times> node \<Rightarrow> bool" where
  "isDir (name, Dir d) = True"
| "isDir (name, File a) = False"

text \<open>The node a path names, from the directory whose entries are \<open>es\<close>; the empty
  path names that directory itself.\<close>

fun lookup :: "entries \<Rightarrow> path \<Rightarrow> node option" where
  "lookup es [] = Some (Dir es)"
| "lookup es (c # cs) =
     (case map_of es c of
        None \<Rightarrow> None
      | Some (File a) \<Rightarrow> (if cs = [] then Some (File a) else None)
      | Some (Dir d) \<Rightarrow> lookup d cs)"

text \<open>\<^verbatim>\<open>QDir(path).exists()\<close>: the path names a directory.\<close>

definition qdir_exists :: "entries \<Rightarrow> path \<Rightarrow> bool" where
  "qdir_exists es p = (case lookup es p of Some (Dir d) \<Rightarrow> True | _ \<Rightarrow> False)"

text \<open>\<^verbatim>\<open>QFile(path).exists()\<close>: the path names something, a file or a directory.\<close>

definition qfile_exists :: "entries \<Rightarrow> path \<Rightarrow> bool" where
  "qfile_exists es p = (lookup es p \<noteq> None)"

text \<open>\<^verbatim>\<open>QFile::remove\<close> on a regular file with attributes \<open>a\<close> succeeds.\<close>

definition can_remove :: "fattr \<Rightarrow> bool" where
  "can_remove a = (writeUser a \<and> \<not> inUse a)"

text \<open>Replace the entries of the directory at a path.\<close>

fun put_dir :: "path \<Rightarrow> entries \<Rightarrow> entries \<Rightarrow> entries" where
  "put_dir [] new es = new"
| "put_dir (c # cs) new es =
     AList.map_entry c (\<lambda>n. case n of Dir d \<Rightarrow> Dir (put_dir cs new d) | File a \<Rightarrow> File a) es"

text \<open>Take the regular file at a path out of its directory.\<close>

fun unlink :: "path \<Rightarrow> entries \<Rightarrow> entries" where
  "unlink [] es = es"
| "unlink [c] es = (case map_of es c of Some (File a) \<Rightarrow> AList.delete c es | _ \<Rightarrow> es)"
| "unlink (c # cs) es =
     AList.map_entry c (\<lambda>n. case n of Dir d \<Rightarrow> Dir (unlink cs d) | File a \<Rightarrow> File a) es"

text \<open>\<^verbatim>\<open>QFile::remove(path)\<close>: the file is removed when the path names a regular file that
  can be removed; otherwise the call fails and the tree is as before. The result of the
  call is dropped by the only caller that uses this function, the \<^verbatim>\<open>while\<close> loop of the
  sweep.\<close>

definition qfile_remove :: "path \<Rightarrow> entries \<Rightarrow> entries" where
  "qfile_remove p es =
     (case lookup es p of
        Some (File a) \<Rightarrow> (if can_remove a then unlink p es else es)
      | _ \<Rightarrow> es)"

section \<open>removeDirs\<close>

text \<open>
  \<^verbatim>\<open>dir.entryInfoList(NoDotAndDotDot | System | Hidden | AllDirs | Files, DirsFirst)\<close>: every
  entry of the directory, the directories first and, within the directories and within the
  files, sorted by name (\<^verbatim>\<open>QDir::DirsFirst\<close> alone leaves the sort key at \<^verbatim>\<open>QDir::Name\<close>).
  Names are compared as \<^verbatim>\<open>QString::compare\<close> does, character by character by their codes,
  a proper prefix before the longer name. Each \<^verbatim>\<open>QFileInfo\<close> of the listing is kept with the
  position its entry has in the directory, which is what the calls made on
  \<^verbatim>\<open>info.absoluteFilePath()\<close> act on.
\<close>

definition entryInfoList :: "entries \<Rightarrow> (nat \<times> string \<times> node) list" where
  "entryInfoList es =
     (let infos = enumerate 0 es
      in sort_key (\<lambda>info. fst (snd info)) (filter (\<lambda>info. isDir (snd info)) infos)
         @ sort_key (\<lambda>info. fst (snd info)) (filter (\<lambda>info. \<not> isDir (snd info)) infos))"

text \<open>
  The \<^verbatim>\<open>else\<close> branch of the loop body, for an entry that is a regular file:
  \<^verbatim>\<open>
  result = QFile::remove(info.absoluteFilePath());
  if (!result) {
      const QFile::Permissions permissions = QFile::permissions(info.absoluteFilePath());
      if (!(permissions & QFile::WriteUser)) {
          result = QFile::setPermissions(info.absoluteFilePath(), permissions | QFile::WriteUser)
                && QFile::remove(info.absoluteFilePath());
      }
  }
  \<close>
  It returns \<^verbatim>\<open>result\<close> and what is left of the file: \<open>None\<close> when it has been removed,
  its attributes otherwise (with the write bit set when \<^verbatim>\<open>setPermissions\<close> succeeded).
\<close>

definition remove_file_entry :: "fattr \<Rightarrow> bool \<times> fattr option" where
  "remove_file_entry a =
     (if can_remove a then (True, None)
      else if \<not> writeUser a then
        (if permsLocked a then (False, Some a)
         else (let a' = a\<lparr>writeUser := True\<rparr>
               in if can_remove a' then (True, None) else (False, Some a')))
      else (False, Some a))"

text \<open>
  While the loop runs, the directory is held as one slot for each of its entries, in the
  order of the directory: \<open>None\<close> once the file of the slot has been removed. The entries
  that are left are the slots that still hold one.
\<close>

fun remaining :: "'a option list \<Rightarrow> 'a list" where
  "remaining [] = []"
| "remaining (None # slots) = remaining slots"
| "remaining (Some e # slots) = e # remaining slots"

text \<open>
  The \<^verbatim>\<open>Q_FOREACH\<close> loop of \<^verbatim>\<open>removeDirs\<close> over a listing: a directory entry is handed to
  \<^verbatim>\<open>removeDirs\<close> again, a file entry is removed, and the first entry whose \<^verbatim>\<open>result\<close> is
  false ends the loop (\<^verbatim>\<open>if (!result) return result;\<close>). The function returns the
  \<^verbatim>\<open>result\<close> of \<^verbatim>\<open>removeDirs\<close> and the slots of the directory. No branch removes a
  directory: the source has no \<^verbatim>\<open>rmdir\<close>.
\<close>

function removeDirs_loop ::
  "(nat \<times> string \<times> node) list \<Rightarrow> (string \<times> node) option list
     \<Rightarrow> bool \<times> (string \<times> node) option list" where
  "removeDirs_loop [] slots = (True, slots)"
| "removeDirs_loop ((i, name, Dir d) # rest) slots =
     (let (result, left) = removeDirs_loop (entryInfoList d) (map Some d);
          slots' = slots[i := Some (name, Dir (remaining left))]
      in if \<not> result then (False, slots') else removeDirs_loop rest slots')"
| "removeDirs_loop ((i, name, File a) # rest) slots =
     (let (result, left) = remove_file_entry a;
          slots' = slots[i := map_option (\<lambda>a'. (name, File a')) left]
      in if \<not> result then (False, slots') else removeDirs_loop rest slots')"
  by pat_completeness auto
termination
proof (relation "measure (\<lambda>(infos, slots). sum_list (map (\<lambda>(i, name, n). size n) infos) + length infos)")
  let ?w = "\<lambda>(i :: nat, name :: string, n :: node). size n"
  have insort: "sum_list (map ?w (insort_key k x xs)) = ?w x + sum_list (map ?w xs)"
    for k :: "nat \<times> string \<times> node \<Rightarrow> string" and x xs
    by (induction xs) auto
  have sorted: "sum_list (map ?w (sort_key k xs)) = sum_list (map ?w xs)"
    for k :: "nat \<times> string \<times> node \<Rightarrow> string" and xs
    by (induction xs) (auto simp: insort)
  have split: "sum_list (map ?w (filter P xs)) + sum_list (map ?w (filter (\<lambda>x. \<not> P x) xs))
      = sum_list (map ?w xs)" for P xs
    by (induction xs) auto
  have numbered: "sum_list (map ?w (enumerate k d)) = sum_list (map (\<lambda>(name, n). size n) d)"
    for k and d :: entries
    by (induction d arbitrary: k) auto
  have listing: "sum_list (map ?w (entryInfoList d)) = sum_list (map (\<lambda>(name, n). size n) d)"
    for d
    unfolding entryInfoList_def Let_def by (simp add: sorted split numbered)
  have len: "length (entryInfoList d) = length d" for d
    unfolding entryInfoList_def Let_def by (simp add: sum_length_filter_compl)
  have dir: "sum_list (map (\<lambda>(name, n). size n) d) + length d < size (Dir d)" for d
    by (induction d) auto
  show "wf (measure (\<lambda>(infos, slots). sum_list (map ?w infos) + length infos))"
    by simp
  show "((entryInfoList d, map Some d), (i, name, Dir d) # rest, slots)
      \<in> measure (\<lambda>(infos, slots). sum_list (map ?w infos) + length infos)"
    for i name d rest and slots :: "(string \<times> node) option list"
    using dir [of d] by (simp add: listing len)
  show "((rest, slots'), (i, name, Dir d) # rest, slots)
      \<in> measure (\<lambda>(infos, slots). sum_list (map ?w infos) + length infos)"
    for i name d rest and slots slots' :: "(string \<times> node) option list"
    by simp
  show "((rest, slots'), (i, name, File a) # rest, slots)
      \<in> measure (\<lambda>(infos, slots). sum_list (map ?w infos) + length infos)"
    for i name a rest and slots slots' :: "(string \<times> node) option list"
    by simp
qed

text \<open>
  \<^verbatim>\<open>removeDirs(dirName)\<close> on the tree: when \<^verbatim>\<open>dir.exists(dirName)\<close> is false the result is
  true and nothing is done; for a path that names a regular file the listing is empty, so
  again nothing is done and the result is true.
\<close>

definition removeDirs :: "path \<Rightarrow> entries \<Rightarrow> bool \<times> entries" where
  "removeDirs dirName es =
     (case lookup es dirName of
        Some (Dir d) \<Rightarrow>
          (let (result, left) = removeDirs_loop (entryInfoList d) (map Some d)
           in (result, put_dir dirName (remaining left) es))
      | _ \<Rightarrow> (True, es))"

section \<open>The sync-mode journal\<close>

text \<open>
  \<^verbatim>\<open>SyncJournalDb\<close> is not among the sources; the sweep only calls it. Its sync-mode table
  is the spec's SyncStateStore (one row per path: sync mode, download status, time of the
  last access), kept here as the list of its rows in the order \<^verbatim>\<open>getSyncModePaths\<close> lists
  them. The enumerators are the ones the sweep names.
\<close>

datatype SyncMode = SYNCMODE_ONLINE | SYNCMODE_OFFLINE

datatype SyncModeDownload =
  SYNCMODE_DOWNLOADED_NONE | SYNCMODE_DOWNLOADED_NO | SYNCMODE_DOWNLOADED_YES

datatype error = NotFoundError

record SyncPathRecord =
  syncMode :: SyncMode
  downloadStatus :: SyncModeDownload
  lastAccessAt :: int

type_synonym journal = "(path \<times> SyncPathRecord) list"

text \<open>Modelled from the spec: \<^verbatim>\<open>SyncJournalDb::getSyncModePaths\<close> is missing; the spec's
  \<^verbatim>\<open>listPaths\<close> is a finite snapshot of the paths that have a record. The call in the sweep
  passes no filter.\<close>

definition getSyncModePaths :: "journal \<Rightarrow> path list" where
  "getSyncModePaths db = map fst db"

text \<open>Modelled from the spec: \<^verbatim>\<open>SyncJournalDb::getSyncMode\<close> is missing; the spec's
  \<^verbatim>\<open>getSyncMode(path) -> mode|absent\<close>.\<close>

definition getSyncMode :: "journal \<Rightarrow> path \<Rightarrow> SyncMode option" where
  "getSyncMode db p = map_option syncMode (map_of db p)"

text \<open>Modelled from the spec: \<^verbatim>\<open>SyncJournalDb::getSyncModeDownload\<close> is missing; the spec's
  \<^verbatim>\<open>getDownloadStatus(path) -> status|absent\<close>.\<close>

definition getSyncModeDownload :: "journal \<Rightarrow> path \<Rightarrow> SyncModeDownload option" where
  "getSyncModeDownload db p = map_option downloadStatus (map_of db p)"

text \<open>Modelled from the spec: \<^verbatim>\<open>SyncJournalDb::secondsSinceLastAccess\<close> is missing; the
  spec's \<^verbatim>\<open>secondsSinceLastAccess(path) -> duration\<close>, which fails with
  \<^verbatim>\<open>NotFoundError\<close> when the path has no record. The duration is the clock reading
  \<open>now\<close> minus the record's \<^verbatim>\<open>lastAccessAt\<close>, in the \<^verbatim>\<open>qint64\<close> the sweep stores it in.\<close>

definition secondsSinceLastAccess :: "int \<Rightarrow> journal \<Rightarrow> path \<Rightarrow> error + 64 word" where
  "secondsSinceLastAccess now db p =
     (case map_of db p of
        None \<Rightarrow> Inl NotFoundError
      | Some r \<Rightarrow> Inr (word_of_int (now - lastAccessAt r)))"

text \<open>Modelled from the spec: \<^verbatim>\<open>SyncJournalDb::deleteSyncMode\<close> is missing; the spec's
  \<^verbatim>\<open>deleteRecord(path)\<close>, which removes the record entirely.\<close>

definition deleteSyncMode :: "path \<Rightarrow> journal \<Rightarrow> journal" where
  "deleteSyncMode p db = AList.delete p db"

text \<open>Modelled from the spec: \<^verbatim>\<open>SyncJournalDb::deleteFileRecord\<close> is missing, and the spec's
  data model has no table besides the sync-mode records. By its name and its arguments
  \<^verbatim>\<open>deleteFileRecord(item, recursively)\<close> deletes the metadata row of a path and, when
  \<^verbatim>\<open>recursively\<close> is true, the rows of the paths below it; the metadata rows are a list
  of paths apart from the sync-mode records.\<close>

definition deleteFileRecord :: "path \<Rightarrow> bool \<Rightarrow> path list \<Rightarrow> path list" where
  "deleteFileRecord p recursively rows =
     filter (\<lambda>q. q \<noteq> p \<and> \<not> (recursively \<and> prefix p q)) rows"

section \<open>slotDeleteOnlineFiles\<close>

text \<open>What the sweep reads and writes: the sync-mode table and the metadata rows of
  \<^verbatim>\<open>SyncJournalDb::instance()\<close>, and the tree below \<^verbatim>\<open>relative_prefix\<close>.\<close>

record sweep_state =
  syncModes :: journal
  fileRecords :: "path list"
  cachedFiles :: entries

text \<open>
  The \<^verbatim>\<open>while\<close> loop of the file branch:
  \<^verbatim>\<open>
  QFile file(realPathItem);
  while (file.exists()) {
      QFile::remove(realPathItem);
      QThread::msleep(100);
  }
  \<close>
  It has no bound, so it is a partial function: \<open>None\<close> is the loop that never ends.
  The pause between two attempts changes nothing the model holds.
\<close>

partial_function (option) remove_while_exists :: "path \<Rightarrow> entries \<Rightarrow> entries option" where
  "remove_while_exists realPathItem es =
     (if qfile_exists es realPathItem
      then remove_while_exists realPathItem (qfile_remove realPathItem es)
      else Some es)"

text \<open>
  The condition of the eviction branch:
  \<^verbatim>\<open>if (m_secondsSinceLastAccess > 65 && (mode == SyncJournalDb::SyncMode::SYNCMODE_ONLINE))\<close>,
  a signed comparison of a \<^verbatim>\<open>qint64\<close>. \<^verbatim>\<open>down\<close> is read before it and used in the
  \<^verbatim>\<open>qDebug\<close> lines only. A path without a record has no mode, so the second conjunct
  is false for it whatever the first read gave.
\<close>

definition eviction_due :: "int \<Rightarrow> journal \<Rightarrow> path \<Rightarrow> bool" where
  "eviction_due now db item =
     (let m_secondsSinceLastAccess = secondsSinceLastAccess now db item;
          mode = getSyncMode db item;
          down = getSyncModeDownload db item
      in (case m_secondsSinceLastAccess of Inl e \<Rightarrow> False | Inr secs \<Rightarrow> 65 <s secs)
         \<and> mode = Some SYNCMODE_ONLINE)"

text \<open>
  The eviction branch. \<^verbatim>\<open>realPathItem\<close> is \<^verbatim>\<open>relative_prefix\<close> followed by the item, the
  item read from the cache directory. The result of \<^verbatim>\<open>removeDirs\<close> is dropped;
  \<^verbatim>\<open>deleteFileRecord\<close> and \<^verbatim>\<open>deleteSyncMode\<close> follow in both branches.
\<close>

definition evict :: "path \<Rightarrow> sweep_state \<Rightarrow> sweep_state option" where
  "evict item st =
     (let realPathItem = item
      in if qdir_exists (cachedFiles st) realPathItem
         then Some (st\<lparr>cachedFiles := snd (removeDirs realPathItem (cachedFiles st)),
                        fileRecords := deleteFileRecord item True (fileRecords st),
                        syncModes := deleteSyncMode item (syncModes st)\<rparr>)
         else (case remove_while_exists realPathItem (cachedFiles st) of
                 None \<Rightarrow> None
               | Some es \<Rightarrow>
                   Some (st\<lparr>cachedFiles := es,
                            fileRecords := deleteFileRecord item False (fileRecords st),
                            syncModes := deleteSyncMode item (syncModes st)\<rparr>)))"

text \<open>The body of the \<^verbatim>\<open>foreach\<close>, for one item of the snapshot.\<close>

definition sweep_item :: "int \<Rightarrow> path \<Rightarrow> sweep_state \<Rightarrow> sweep_state option" where
  "sweep_item now item st =
     (if eviction_due now (syncModes st) item then evict item st else Some st)"

text \<open>\<^verbatim>\<open>foreach(item, list)\<close>: the items in order; an item whose loop never ends keeps
  the ones after it from being reached.\<close>

fun sweep_items :: "int \<Rightarrow> path list \<Rightarrow> sweep_state \<Rightarrow> sweep_state option" where
  "sweep_items now [] st = Some st"
| "sweep_items now (item # list) st =
     (case sweep_item now item st of
        None \<Rightarrow> None
      | Some st' \<Rightarrow> sweep_items now list st')"

text \<open>The slot: the snapshot \<^verbatim>\<open>list\<close> is taken once, before the loop.\<close>

definition slotDeleteOnlineFiles :: "int \<Rightarrow> sweep_state \<Rightarrow> sweep_state option" where
  "slotDeleteOnlineFiles now st =
     (let list = getSyncModePaths (syncModes st)
      in if list \<noteq> [] then sweep_items now list st else Some st)"

section \<open>slotCheckConnection and slotAccountStateRemoved\<close>

text \<open>Modelled from the spec: the declaration of \<^verbatim>\<open>AccountState::State\<close> is missing; the
  spec's AccountConnectivityState has these five states, three of which
  \<^verbatim>\<open>slotCheckConnection\<close> names.\<close>

datatype State = SignedOut | Connecting | Connected | ConfigurationError | AskingCredentials

record AccountState =
  identity :: string
  state :: State
  lastCheckedAt :: int

text \<open>The calls the two slots make on objects that are not among the sources, in the
  order they are made: \<^verbatim>\<open>accountState->checkConnectivity()\<close> (with the account as it is
  when the call is made), \<^verbatim>\<open>_gui->slotOpenSettingsDialog()\<close> and \<^verbatim>\<open>OwncloudSetupWizard::runWizard(...)\<close>.\<close>

datatype call =
  CheckConnectivity AccountState
| SlotOpenSettingsDialog
| RunWizard

text \<open>Modelled from the spec: \<^verbatim>\<open>ownCloudGui\<close> and \<^verbatim>\<open>OwncloudSetupWizard\<close> are missing; they
  are the spec's setup-flow collaborator, which prompts for the creation of an account.
  The source says the same at both calls: \<^verbatim>\<open>// let gui open the setup wizard\<close> and
  \<^verbatim>\<open>// if there is no more account, show the wizard.\<close>\<close>

fun setup_flow_signal :: "call \<Rightarrow> bool" where
  "setup_flow_signal SlotOpenSettingsDialog = True"
| "setup_flow_signal RunWizard = True"
| "setup_flow_signal (CheckConnectivity a) = False"

text \<open>The part of the application the two slots touch: the accounts of
  \<^verbatim>\<open>AccountManager::instance()\<close>, whether \<^verbatim>\<open>_checkConnectionTimer\<close> is running, and the calls
  made so far.\<close>

record application =
  accounts :: "AccountState list"
  checkConnectionTimerActive :: bool
  calls :: "call list"

text \<open>
  The \<^verbatim>\<open>foreach\<close> of \<^verbatim>\<open>slotCheckConnection\<close>. \<^verbatim>\<open>AccountState::checkConnectivity\<close> is
  missing, so what it does to the account it is called on is the parameter
  \<open>checkConnectivity\<close>; the call is recorded.
\<close>

fun check_accounts ::
  "(AccountState \<Rightarrow> AccountState) \<Rightarrow> AccountState list \<Rightarrow> AccountState list \<times> call list" where
  "check_accounts checkConnectivity [] = ([], [])"
| "check_accounts checkConnectivity (accountState # list) =
     (let (list', made) = check_accounts checkConnectivity list
      in if state accountState \<noteq> SignedOut
            \<and> state accountState \<noteq> ConfigurationError
            \<and> state accountState \<noteq> AskingCredentials
         then (checkConnectivity accountState # list',
               CheckConnectivity accountState # made)
         else (accountState # list', made))"

definition slotCheckConnection ::
  "(AccountState \<Rightarrow> AccountState) \<Rightarrow> application \<Rightarrow> application" where
  "slotCheckConnection checkConnectivity app =
     (let list = accounts app;
          (list', made) = check_accounts checkConnectivity list;
          app' = app\<lparr>accounts := list', calls := calls app @ made\<rparr>
      in if list = []
         then app'\<lparr>calls := calls app' @ [SlotOpenSettingsDialog],
                   checkConnectionTimerActive := False\<rparr>
         else app')"

text \<open>\<^verbatim>\<open>connect(&_checkConnectionTimer, &QTimer::timeout, this, &Application::slotCheckConnection)\<close>:
  the end of an interval runs the slot when the timer is running, and nothing when it
  has been stopped.\<close>

definition checkConnectionTimer_timeout ::
  "(AccountState \<Rightarrow> AccountState) \<Rightarrow> application \<Rightarrow> application" where
  "checkConnectionTimer_timeout checkConnectivity app =
     (if checkConnectionTimerActive app then slotCheckConnection checkConnectivity app else app)"

fun timeouts :: "(AccountState \<Rightarrow> AccountState) \<Rightarrow> nat \<Rightarrow> application \<Rightarrow> application" where
  "timeouts checkConnectivity 0 app = app"
| "timeouts checkConnectivity (Suc n) app =
     timeouts checkConnectivity n (checkConnectionTimer_timeout checkConnectivity app)"

text \<open>
  \<^verbatim>\<open>slotAccountStateRemoved\<close>, run on \<^verbatim>\<open>AccountManager::accountRemoved\<close>. The \<^verbatim>\<open>disconnect\<close>
  calls before the test undo signal connections, which are not part of the state kept
  here; \<^verbatim>\<open>accounts()\<close> is read after the removal.
\<close>

definition slotAccountStateRemoved :: "AccountState \<Rightarrow> application \<Rightarrow> application" where
  "slotAccountStateRemoved accountState app =
     (if accounts app = [] then app\<lparr>calls := calls app @ [RunWizard]\<rparr> else app)"

text \<open>Modelled from the spec: \<^verbatim>\<open>AccountManager\<close> is missing; the spec's
  \<^verbatim>\<open>removeAccount(identity)\<close> takes the account out of the set, and the signal
  \<^verbatim>\<open>accountRemoved\<close> then runs \<^verbatim>\<open>slotAccountStateRemoved\<close>.\<close>

definition removeAccount :: "AccountState \<Rightarrow> application \<Rightarrow> application" where
  "removeAccount accountState app =
     slotAccountStateRemoved accountState
       (app\<lparr>accounts := filter (\<lambda>a. identity a \<noteq> identity accountState) (accounts app)\<rparr>)"

section \<open>The connectivity state machine\<close>

text \<open>Modelled from the spec: the connectivity probe capability is missing; given an account
  it returns one of \<^verbatim>\<open>Success\<close>, \<^verbatim>\<open>ConfigurationError\<close>, \<^verbatim>\<open>AuthRequired\<close>, \<^verbatim>\<open>Unreachable\<close>
  (section 6 of the spec). The second is \<open>ProbeConfigurationError\<close> here, apart from the
  state of the same name.\<close>

datatype probe_result = Success | ProbeConfigurationError | AuthRequired | Unreachable

text \<open>Modelled from the spec: \<^verbatim>\<open>AccountState::checkConnectivity\<close> is missing; the spec's edges
  for a check are: Connecting to Connected when the probe succeeds, Connecting to
  ConfigurationError when it reports an invalid configuration, Connecting to
  AskingCredentials when it reports that credentials are needed, Connected to Connecting
  on a periodic re-check; a probe that does not get through leaves the account
  Connecting.\<close>

definition AccountState_checkConnectivity ::
  "(AccountState \<Rightarrow> probe_result) \<Rightarrow> AccountState \<Rightarrow> AccountState" where
  "AccountState_checkConnectivity probe accountState =
     (case state accountState of
        Connected \<Rightarrow> accountState\<lparr>state := Connecting\<rparr>
      | Connecting \<Rightarrow>
          (case probe accountState of
             Success \<Rightarrow> accountState\<lparr>state := Connected\<rparr>
           | ProbeConfigurationError \<Rightarrow> accountState\<lparr>state := ConfigurationError\<rparr>
           | AuthRequired \<Rightarrow> accountState\<lparr>state := AskingCredentials\<rparr>
           | Unreachable \<Rightarrow> accountState)
      | _ \<Rightarrow> accountState)"

text \<open>Modelled from the spec: what changes the connectivity state of an account. The first
  two are the slots of the source, run with the check above on the answers the probe
  gives at that moment: the end of a timer interval, and a run of
  \<^verbatim>\<open>slotCheckConnection\<close> queued by \<^verbatim>\<open>slotSystemOnlineConfigurationChanged\<close>. The other two
  are the spec's external triggers, on the account at a position of the list: the
  explicit sign-out, which takes any state to SignedOut, and the explicit trigger that
  has a settled account tried again (a user re-authentication), which puts it back into
  the state an account starts in, Connecting. Accounts are neither added nor removed.\<close>

datatype event =
  TimerTimeout "AccountState \<Rightarrow> probe_result"
| CheckConnection "AccountState \<Rightarrow> probe_result"
| SignOut nat
| Reauthenticate nat

definition at_account :: "nat \<Rightarrow> (AccountState \<Rightarrow> AccountState) \<Rightarrow> application \<Rightarrow> application" where
  "at_account i f app =
     (if i < length (accounts app)
      then app\<lparr>accounts := (accounts app)[i := f (accounts app ! i)]\<rparr> else app)"

fun occur :: "event \<Rightarrow> application \<Rightarrow> application" where
  "occur (TimerTimeout probe) app =
     checkConnectionTimer_timeout (AccountState_checkConnectivity probe) app"
| "occur (CheckConnection probe) app =
     slotCheckConnection (AccountState_checkConnectivity probe) app"
| "occur (SignOut i) app = at_account i (\<lambda>a. a\<lparr>state := SignedOut\<rparr>) app"
| "occur (Reauthenticate i) app =
     at_account i
       (\<lambda>a. if state a = SignedOut \<or> state a = ConfigurationError \<or> state a = AskingCredentials
            then a\<lparr>state := Connecting\<rparr> else a) app"

text \<open>The states the application goes through as a list of events occurs, the first state
  first.\<close>

fun trace :: "event list \<Rightarrow> application \<Rightarrow> application list" where
  "trace [] app = [app]"
| "trace (e # events) app = app # trace events (occur e app)"

section \<open>Notions used to state the properties\<close>

text \<open>A regular file that the loop body of \<^verbatim>\<open>removeDirs\<close> gets rid of, at the first
  \<^verbatim>\<open>QFile::remove\<close> or at the one after \<^verbatim>\<open>QFile::setPermissions\<close>: it is not in use, and
  it is writable or can be made so.\<close>

definition deletable :: "fattr \<Rightarrow> bool" where
  "deletable a = (\<not> inUse a \<and> (writeUser a \<or> \<not> permsLocked a))"

text \<open>The regular files anywhere below a directory, given by its entries.\<close>

fun files_below :: "entries \<Rightarrow> fattr list" where
  "files_below [] = []"
| "files_below ((name, Dir d) # rest) = files_below d @ files_below rest"
| "files_below ((name, File a) # rest) = a # files_below rest"

text \<open>A directory with every regular file below it taken out and every directory below it
  kept.\<close>

fun only_dirs :: "entries \<Rightarrow> entries" where
  "only_dirs [] = []"
| "only_dirs ((name, Dir d) # rest) = (name, Dir (only_dirs d)) # only_dirs rest"
| "only_dirs ((name, File a) # rest) = only_dirs rest"

text \<open>What a successful pass of the loop body leaves of an entry: nothing of a file, and of
  a directory the directory with its subdirectories.\<close>

fun emptied :: "string \<times> node \<Rightarrow> (string \<times> node) option" where
  "emptied (name, Dir d) = Some (name, Dir (only_dirs d))"
| "emptied (name, File a) = None"

text \<open>What the loop body leaves of an entry, successful or not.\<close>

fun left_of :: "string \<times> node \<Rightarrow> (string \<times> node) option" where
  "left_of (name, Dir d) =
     Some (name, Dir (remaining (snd (removeDirs_loop (entryInfoList d) (map Some d)))))"
| "left_of (name, File a) = map_option (\<lambda>a'. (name, File a')) (snd (remove_file_entry a))"

text \<open>The slots of a directory after the loop body has succeeded on the given part of the
  listing.\<close>

definition processed ::
  "(nat \<times> string \<times> node) list \<Rightarrow> (string \<times> node) option list \<Rightarrow> (string \<times> node) option list" where
  "processed infos slots = fold (\<lambda>info slots. slots[fst info := emptied (snd info)]) infos slots"

section \<open>The connectivity check\<close>

lemma check_accounts_length: "length (fst (check_accounts chk list)) = length list"
  by (induction list) (auto split: prod.splits)

lemma check_accounts_settled:
  "i < length list \<Longrightarrow> state (list ! i) \<in> {SignedOut, ConfigurationError, AskingCredentials}
   \<Longrightarrow> fst (check_accounts chk list) ! i = list ! i"
proof (induction list arbitrary: i)
  case Nil
  then show ?case by simp
next
  case (Cons a list)
  show ?case
  proof (cases i)
    case 0
    with Cons.prems show ?thesis by (auto split: prod.splits)
  next
    case (Suc j)
    with Cons.prems have "fst (check_accounts chk list) ! j = list ! j"
      by (intro Cons.IH) auto
    with Suc show ?thesis by (auto split: prod.splits)
  qed
qed

lemma check_accounts_calls:
  "snd (check_accounts chk list) =
     map CheckConnectivity (filter (\<lambda>a. state a = Connecting \<or> state a = Connected) list)"
proof (induction list)
  case Nil
  then show ?case by simp
next
  case (Cons a list)
  then show ?case by (cases "state a") (auto split: prod.splits)
qed

lemma slotCheckConnection_accounts:
  "accounts (slotCheckConnection chk app) = fst (check_accounts chk (accounts app))"
  by (simp add: slotCheckConnection_def Let_def split: prod.splits)

lemma slotCheckConnection_calls:
  "calls (slotCheckConnection chk app) =
     calls app @ snd (check_accounts chk (accounts app))
       @ (if accounts app = [] then [SlotOpenSettingsDialog] else [])"
  by (simp add: slotCheckConnection_def Let_def split: prod.splits)

lemma timeout_settled:
  assumes "i < length (accounts app)"
    and "state (accounts app ! i) \<in> {SignedOut, ConfigurationError, AskingCredentials}"
  shows "length (accounts (checkConnectionTimer_timeout chk app)) = length (accounts app)"
    and "accounts (checkConnectionTimer_timeout chk app) ! i = accounts app ! i"
  using assms
  by (simp_all add: checkConnectionTimer_timeout_def slotCheckConnection_accounts
      check_accounts_length check_accounts_settled)

lemma timeout_calls:
  "CheckConnectivity a \<in> set (calls (checkConnectionTimer_timeout chk app)) \<Longrightarrow>
     CheckConnectivity a \<in> set (calls app) \<or> state a = Connecting \<or> state a = Connected"
  by (auto simp: checkConnectionTimer_timeout_def slotCheckConnection_calls check_accounts_calls
      split: if_splits)

lemma timeouts_settled:
  "i < length (accounts app) \<Longrightarrow>
   state (accounts app ! i) \<in> {SignedOut, ConfigurationError, AskingCredentials} \<Longrightarrow>
   i < length (accounts (timeouts chk n app)) \<and> accounts (timeouts chk n app) ! i = accounts app ! i"
proof (induction n arbitrary: app)
  case 0
  then show ?case by simp
next
  case (Suc n)
  let ?app = "checkConnectionTimer_timeout chk app"
  from Suc.prems have len: "i < length (accounts ?app)" and same: "accounts ?app ! i = accounts app ! i"
    by (simp_all add: timeout_settled)
  with Suc.prems have "state (accounts ?app ! i) \<in> {SignedOut, ConfigurationError, AskingCredentials}"
    by simp
  from Suc.IH [OF len this] same show ?case by simp
qed

lemma timeouts_calls:
  "CheckConnectivity a \<in> set (calls (timeouts chk n app)) \<Longrightarrow>
     CheckConnectivity a \<in> set (calls app) \<or> state a = Connecting \<or> state a = Connected"
proof (induction n arbitrary: app)
  case 0
  then show ?case by simp
next
  case (Suc n)
  from Suc.prems have "CheckConnectivity a \<in> set (calls (timeouts chk n (checkConnectionTimer_timeout chk app)))"
    by simp
  from Suc.IH [OF this] show ?case
    using timeout_calls [of a chk app] by blast
qed

lemma timeouts_stopped:
  "\<not> checkConnectionTimerActive app \<Longrightarrow> timeouts chk n app = app"
  by (induction n) (simp_all add: checkConnectionTimer_timeout_def)

lemma check_accounts_nth:
  "i < length list \<Longrightarrow>
     fst (check_accounts chk list) ! i =
       (if state (list ! i) \<in> {SignedOut, ConfigurationError, AskingCredentials}
        then list ! i else chk (list ! i))"
proof (induction list arbitrary: i)
  case Nil
  then show ?case by simp
next
  case (Cons a list)
  show ?case
  proof (cases i)
    case 0
    then show ?thesis by (auto split: prod.splits)
  next
    case (Suc j)
    with Cons.prems have "j < length list" by simp
    from Cons.IH [OF this] Suc show ?thesis by (auto split: prod.splits)
  qed
qed

lemma checkConnectivity_Connected:
  "state (AccountState_checkConnectivity probe a) = Connected \<Longrightarrow> state a = Connecting"
  by (auto simp: AccountState_checkConnectivity_def split: State.splits probe_result.splits)

lemma slotCheckConnection_Connected:
  assumes "i < length (accounts app)"
    and "state (accounts (slotCheckConnection (AccountState_checkConnectivity probe) app) ! i) = Connected"
  shows "state (accounts app ! i) = Connecting \<or> state (accounts app ! i) = Connected"
  using assms
  by (auto simp: slotCheckConnection_accounts check_accounts_nth
      dest: checkConnectivity_Connected split: if_splits)

lemma occur_length: "length (accounts (occur e app)) = length (accounts app)"
  by (cases e)
    (simp_all add: checkConnectionTimer_timeout_def slotCheckConnection_accounts
      check_accounts_length at_account_def)

lemma occur_Connected:
  assumes "i < length (accounts app)"
    and "state (accounts (occur e app) ! i) = Connected"
  shows "state (accounts app ! i) = Connecting \<or> state (accounts app ! i) = Connected"
proof (cases e)
  case (TimerTimeout probe)
  with assms show ?thesis
    using slotCheckConnection_Connected [of i app probe]
    by (auto simp: checkConnectionTimer_timeout_def split: if_splits)
next
  case (CheckConnection probe)
  with assms show ?thesis
    using slotCheckConnection_Connected [of i app probe] by simp
next
  case (SignOut j)
  with assms show ?thesis
    by (cases "i = j") (auto simp: at_account_def split: if_splits)
next
  case (Reauthenticate j)
  with assms show ?thesis
    by (cases "i = j") (auto simp: at_account_def split: if_splits)
qed

lemma trace_length: "length (trace events app) = Suc (length events)"
  by (induction events arbitrary: app) auto

lemma trace_Suc:
  "k < length events \<Longrightarrow> trace events app ! Suc k = occur (events ! k) (trace events app ! k)"
proof (induction events arbitrary: app k)
  case Nil
  then show ?case by simp
next
  case (Cons e events)
  show ?case
  proof (cases k)
    case 0
    then show ?thesis by (cases events) auto
  next
    case (Suc j)
    with Cons.prems have "j < length events" by simp
    from Cons.IH [OF this] Suc show ?thesis by simp
  qed
qed

lemma trace_accounts_length:
  "k \<le> length events \<Longrightarrow> length (accounts (trace events app ! k)) = length (accounts app)"
proof (induction k)
  case 0
  then show ?case by (cases events) auto
next
  case (Suc k)
  then show ?case by (simp add: trace_Suc occur_length)
qed

lemma trace_step_Connected:
  assumes "i < length (accounts app)" and "k < length events"
    and "state (accounts (trace events app ! Suc k) ! i) = Connected"
  shows "state (accounts (trace events app ! k) ! i) = Connecting
       \<or> state (accounts (trace events app ! k) ! i) = Connected"
proof -
  from assms(1,2) have "i < length (accounts (trace events app ! k))"
    by (simp add: trace_accounts_length)
  moreover from assms(2,3)
  have "state (accounts (occur (events ! k) (trace events app ! k)) ! i) = Connected"
    by (simp add: trace_Suc)
  ultimately show ?thesis by (rule occur_Connected)
qed

lemma through_Connecting:
  fixes s :: "nat \<Rightarrow> State"
  assumes step: "\<And>j. j < n \<Longrightarrow> s (Suc j) = Connected \<Longrightarrow> s j = Connecting \<or> s j = Connected"
  shows "k < m \<Longrightarrow> m \<le> n \<Longrightarrow> s k = SignedOut \<Longrightarrow> s m = Connected \<Longrightarrow>
      \<exists>l. k < l \<and> l < m \<and> s l = Connecting"
proof (induction m)
  case 0
  then show ?case by simp
next
  case (Suc m)
  from Suc.prems have "s m = Connecting \<or> s m = Connected"
    by (intro step) auto
  then show ?case
  proof
    assume connecting: "s m = Connecting"
    with Suc.prems have "k \<noteq> m" by auto
    with Suc.prems connecting show ?thesis
      by (intro exI [of _ m]) auto
  next
    assume connected: "s m = Connected"
    with Suc.prems have "k \<noteq> m" by auto
    with Suc.prems have "k < m" and "m \<le> n" by auto
    from Suc.IH [OF this Suc.prems(3) connected] show ?thesis
      by (auto intro: less_SucI)
  qed
qed

section \<open>The journal after a sweep\<close>

lemma eviction_due_record:
  "eviction_due now db item =
     (case map_of db item of
        None \<Rightarrow> False
      | Some r \<Rightarrow> syncMode r = SYNCMODE_ONLINE \<and> 65 <s (word_of_int (now - lastAccessAt r) :: 64 word))"
  by (auto simp: eviction_due_def secondsSinceLastAccess_def getSyncMode_def split: option.splits)

lemma map_of_deleteSyncMode:
  "map_of (deleteSyncMode item db) k = (if k = item then None else map_of db k)"
  by (simp add: deleteSyncMode_def delete_conv')

lemma eviction_due_deleteSyncMode:
  "eviction_due now (deleteSyncMode item db) k = (k \<noteq> item \<and> eviction_due now db k)"
  by (simp add: eviction_due_record map_of_deleteSyncMode)

lemma evict_syncModes:
  "evict item st = Some st' \<Longrightarrow> syncModes st' = deleteSyncMode item (syncModes st)"
  by (auto simp: evict_def Let_def split: if_splits option.splits)

lemma sweep_item_syncModes:
  "sweep_item now item st = Some st' \<Longrightarrow>
     syncModes st' = (if eviction_due now (syncModes st) item
                      then deleteSyncMode item (syncModes st) else syncModes st)"
  by (auto simp: sweep_item_def dest: evict_syncModes split: if_splits)

lemma sweep_items_syncModes:
  "sweep_items now list st = Some st' \<Longrightarrow>
     syncModes st' =
       filter (\<lambda>(k, r). \<not> (k \<in> set list \<and> eviction_due now (syncModes st) k)) (syncModes st)"
proof (induction list arbitrary: st)
  case Nil
  then show ?case by simp
next
  case (Cons item list)
  from Cons.prems obtain st1 where
    step: "sweep_item now item st = Some st1" and rest: "sweep_items now list st1 = Some st'"
    by (auto split: option.splits)
  note db1 = sweep_item_syncModes [OF step]
  note ih = Cons.IH [OF rest]
  show ?case
  proof (cases "eviction_due now (syncModes st) item")
    case True
    with db1 have st1: "syncModes st1 = deleteSyncMode item (syncModes st)" by simp
    have "syncModes st' =
        filter (\<lambda>(k, r). \<not> (k \<in> set list \<and> k \<noteq> item \<and> eviction_due now (syncModes st) k))
          (filter (\<lambda>(k, r). item \<noteq> k) (syncModes st))"
      using ih unfolding st1 eviction_due_deleteSyncMode
      by (simp add: deleteSyncMode_def AList.delete_eq)
    also have "\<dots> = filter (\<lambda>(k, r). \<not> (k \<in> set (item # list)
        \<and> eviction_due now (syncModes st) k)) (syncModes st)"
      unfolding filter_filter using True by (intro filter_cong) auto
    finally show ?thesis .
  next
    case False
    with db1 have "syncModes st1 = syncModes st" by simp
    with ih False show ?thesis
      by (auto intro!: filter_cong)
  qed
qed

lemma slotDeleteOnlineFiles_syncModes:
  assumes "slotDeleteOnlineFiles now st = Some st'"
  shows "syncModes st' = filter (\<lambda>(k, r). \<not> eviction_due now (syncModes st) k) (syncModes st)"
proof (cases "syncModes st = []")
  case True
  with assms show ?thesis by (simp add: slotDeleteOnlineFiles_def getSyncModePaths_def)
next
  case False
  with assms have "sweep_items now (map fst (syncModes st)) st = Some st'"
    by (simp add: slotDeleteOnlineFiles_def getSyncModePaths_def)
  from sweep_items_syncModes [OF this] have
    "syncModes st' = filter (\<lambda>(k, r). \<not> (k \<in> fst ` set (syncModes st)
        \<and> eviction_due now (syncModes st) k)) (syncModes st)"
    by simp
  also have "\<dots> = filter (\<lambda>(k, r). \<not> eviction_due now (syncModes st) k) (syncModes st)"
    by (rule filter_cong) force+
  finally show ?thesis .
qed

lemma map_of_filter_key:
  "map_of (filter (\<lambda>(k, r). P k) db) k = (if P k then map_of db k else None)"
  by (induction db) auto

lemma map_fst_filter_key:
  "map fst (filter (\<lambda>(k, r). P k) db) = filter P (map fst db)"
  by (induction db) auto

lemma sweep_items_nothing_due:
  "\<forall>k \<in> set list. \<not> eviction_due now (syncModes st) k \<Longrightarrow> sweep_items now list st = Some st"
  by (induction list) (auto simp: sweep_item_def)

lemma sweep_items_append:
  "sweep_items now (xs @ ys) st =
     (case sweep_items now xs st of None \<Rightarrow> None | Some st1 \<Rightarrow> sweep_items now ys st1)"
  by (induction xs arbitrary: st) (auto split: option.splits)

lemma sweep_item_changes_online_only:
  "sweep_item now item s \<noteq> Some s \<Longrightarrow> getSyncMode (syncModes s) item = Some SYNCMODE_ONLINE"
  by (auto simp: sweep_item_def eviction_due_def Let_def split: if_splits)

section \<open>The tree after a removal\<close>

lemma lookup_unlink_self:
  "lookup es p = Some (File a) \<Longrightarrow> lookup (unlink p es) p = None"
proof (induction p arbitrary: es)
  case Nil
  then show ?case by simp
next
  case (Cons c cs)
  show ?case
  proof (cases cs)
    case Nil
    with Cons.prems show ?thesis
      by (auto simp: delete_conv' split: option.splits node.splits if_splits)
  next
    case (Cons c' cs')
    with Cons.prems obtain d where d: "map_of es c = Some (Dir d)" and below: "lookup d cs = Some (File a)"
      by (auto split: option.splits node.splits if_splits)
    from Cons.IH [OF below] d Cons show ?thesis
      by (simp add: map_of_map_entry)
  qed
qed

lemma remove_while_exists_returns:
  "remove_while_exists p es = Some y \<Longrightarrow> \<not> (qfile_exists es p \<and> qfile_remove p es = es)"
proof (induction p es y rule: remove_while_exists.raw_induct [rotated, consumes 1, case_names body])
  case (body loop p es y)
  show ?case
  proof
    assume stuck: "qfile_exists es p \<and> qfile_remove p es = es"
    with body(2) have "loop p es = Some y" by simp
    from body(1) [OF this] stuck show False by simp
  qed
qed

lemma remove_while_exists_stuck:
  assumes "qfile_exists es p" and "qfile_remove p es = es"
  shows "remove_while_exists p es = None"
proof (cases "remove_while_exists p es")
  case None
  then show ?thesis .
next
  case (Some y)
  from remove_while_exists_returns [OF this] assms show ?thesis by simp
qed

lemma remove_while_exists_cases:
  "remove_while_exists p es =
     (case lookup es p of
        None \<Rightarrow> Some es
      | Some (File a) \<Rightarrow> (if can_remove a then Some (unlink p es) else None)
      | Some (Dir d) \<Rightarrow> None)"
proof (cases "lookup es p")
  case None
  then show ?thesis
    by (subst remove_while_exists.simps) (simp add: qfile_exists_def)
next
  case (Some n)
  show ?thesis
  proof (cases n)
    case (Dir d)
    with Some have "remove_while_exists p es = None"
      by (intro remove_while_exists_stuck) (simp_all add: qfile_exists_def qfile_remove_def)
    with Some Dir show ?thesis by simp
  next
    case (File a)
    show ?thesis
    proof (cases "can_remove a")
      case False
      with Some File have "remove_while_exists p es = None"
        by (intro remove_while_exists_stuck) (simp_all add: qfile_exists_def qfile_remove_def)
      with Some File False show ?thesis by simp
    next
      case True
      from Some File have gone: "lookup (unlink p es) p = None"
        by (simp add: lookup_unlink_self)
      have "remove_while_exists p es = remove_while_exists p (unlink p es)"
        using Some File True
        by (subst remove_while_exists.simps) (simp add: qfile_exists_def qfile_remove_def)
      also have "\<dots> = Some (unlink p es)"
        using gone by (subst remove_while_exists.simps) (simp add: qfile_exists_def)
      finally show ?thesis
        using Some File True by simp
    qed
  qed
qed

lemma lookup_put_dir_self:
  "lookup es p = Some (Dir d) \<Longrightarrow> lookup (put_dir p new es) p = Some (Dir new)"
proof (induction p arbitrary: es)
  case Nil
  then show ?case by simp
next
  case (Cons c cs)
  then obtain d' where d': "map_of es c = Some (Dir d')" and below: "lookup d' cs = Some (Dir d)"
    by (auto split: option.splits node.splits if_splits)
  from Cons.IH [OF below] d' show ?case
    by (simp add: map_of_map_entry)
qed

lemma lookup_put_dir_other:
  "\<not> prefix q p \<Longrightarrow> \<not> prefix p q \<Longrightarrow> lookup (put_dir q new es) p = lookup es p"
proof (induction q arbitrary: p es)
  case Nil
  then show ?case by simp
next
  case (Cons c cs)
  then obtain c' cs' where p: "p = c' # cs'"
    by (cases p) auto
  show ?case
  proof (cases "c' = c")
    case False
    with p show ?thesis by (simp add: map_of_map_entry)
  next
    case True
    with Cons.prems p have "\<not> prefix cs cs'" and "\<not> prefix cs' cs" by auto
    then have ih: "lookup (put_dir cs new d) cs' = lookup d cs'" for d
      by (rule Cons.IH)
    from Cons.prems p True have "cs' \<noteq> []" by auto
    with p True ih show ?thesis
      by (auto simp: map_of_map_entry split: option.splits node.splits)
  qed
qed

lemma lookup_unlink_other:
  "\<not> prefix q p \<Longrightarrow> \<not> prefix p q \<Longrightarrow> lookup (unlink q es) p = lookup es p"
proof (induction q arbitrary: p es)
  case Nil
  then show ?case by simp
next
  case (Cons c cs)
  then obtain c' cs' where p: "p = c' # cs'"
    by (cases p) auto
  show ?case
  proof (cases cs)
    case Nil
    with Cons.prems p have "c' \<noteq> c" by auto
    with p Nil show ?thesis
      by (auto split: option.splits node.splits)
  next
    case cs: (Cons c2 cs2)
    show ?thesis
    proof (cases "c' = c")
      case False
      with p cs show ?thesis by (simp add: map_of_map_entry)
    next
      case True
      with Cons.prems p have "\<not> prefix cs cs'" and "\<not> prefix cs' cs" by auto
      then have ih: "lookup (unlink cs d) cs' = lookup d cs'" for d
        by (rule Cons.IH)
      from Cons.prems p True have "cs' \<noteq> []" by auto
      with p True ih cs show ?thesis
        by (auto simp: map_of_map_entry split: option.splits node.splits)
    qed
  qed
qed

lemma remove_file_entry_result: "fst (remove_file_entry a) = deletable a"
  by (auto simp: remove_file_entry_def deletable_def can_remove_def Let_def)

lemma remove_file_entry_True: "remove_file_entry a = (True, left) \<Longrightarrow> left = None"
  by (auto simp: remove_file_entry_def Let_def split: if_splits)

lemma files_below_only_dirs: "files_below (only_dirs es) = []"
  by (induction es rule: only_dirs.induct) auto

lemma files_below_entries:
  "set (files_below es) = (\<Union>e \<in> set es. set (files_below [e]))"
  by (induction es rule: files_below.induct) auto

lemma entryInfoList_set: "set (entryInfoList d) = set (enumerate 0 d)"
  by (auto simp: entryInfoList_def Let_def)

lemma entryInfoList_distinct: "distinct (map fst (entryInfoList d))"
proof -
  let ?infos = "enumerate 0 d"
  let ?dirs = "filter (\<lambda>info. isDir (snd info)) ?infos"
  let ?files = "filter (\<lambda>info. \<not> isDir (snd info)) ?infos"
  have all: "distinct (map fst ?infos)"
    by (simp add: map_fst_enumerate)
  have part: "distinct (map fst (sort_key k (filter P ?infos)))"
    for P and k :: "nat \<times> string \<times> node \<Rightarrow> string"
  proof -
    have "distinct (map fst (filter P ?infos))"
      using all by (rule distinct_map_filter)
    then show ?thesis
      by (metis distinct_map distinct_sort set_sort)
  qed
  have apart: "fst ` set ?dirs \<inter> fst ` set ?files = {}"
    by (auto simp: in_set_enumerate_eq)
  from part [of _ "\<lambda>info. isDir (snd info)"] part [of _ "\<lambda>info. \<not> isDir (snd info)"] apart
  show ?thesis
    by (simp add: entryInfoList_def Let_def)
qed

lemma entryInfoList_member:
  "(i, e) \<in> set (entryInfoList d) \<longleftrightarrow> i < length d \<and> e = d ! i"
  by (auto simp: entryInfoList_set in_set_enumerate_eq)

lemma entryInfoList_entries: "snd ` set (entryInfoList d) = set d"
proof -
  have "set (map snd (enumerate 0 d)) = set d"
    by (simp only: map_snd_enumerate)
  then have "snd ` set (enumerate 0 d) = set d"
    by (simp only: set_map)
  then show ?thesis
    by (simp only: entryInfoList_set)
qed

lemma processed_length [simp]: "length (processed infos slots) = length slots"
  unfolding processed_def by (induction infos arbitrary: slots) auto

lemma processed_Cons:
  "processed (info # infos) slots = processed infos (slots[fst info := emptied (snd info)])"
  by (simp add: processed_def)

lemma processed_nth_other:
  "i \<notin> fst ` set infos \<Longrightarrow> processed infos slots ! i = slots ! i"
proof (induction infos arbitrary: slots)
  case Nil
  then show ?case by (simp add: processed_def)
next
  case (Cons info infos)
  then show ?case by (simp add: processed_Cons)
qed

lemma processed_nth:
  "distinct (map fst infos) \<Longrightarrow> (i, e) \<in> set infos \<Longrightarrow> i < length slots \<Longrightarrow>
     processed infos slots ! i = emptied e"
proof (induction infos arbitrary: slots)
  case Nil
  then show ?case by simp
next
  case (Cons info infos)
  show ?case
  proof (cases "info = (i, e)")
    case True
    with Cons.prems have "i \<notin> fst ` set infos" by auto
    then have "processed infos (slots[i := emptied e]) ! i = (slots[i := emptied e]) ! i"
      by (rule processed_nth_other)
    with True Cons.prems(3) show ?thesis
      by (simp add: processed_Cons)
  next
    case False
    with Cons.prems have "(i, e) \<in> set infos" and "distinct (map fst infos)" by auto
    with Cons.IH [of "slots[fst info := emptied (snd info)]"] Cons.prems(3) show ?thesis
      by (simp add: processed_Cons)
  qed
qed

lemma remaining_map_emptied: "remaining (map emptied d) = only_dirs d"
  by (induction d rule: only_dirs.induct) auto

lemma processed_listing: "remaining (processed (entryInfoList d) (map Some d)) = only_dirs d"
proof -
  have "processed (entryInfoList d) (map Some d) = map emptied d"
  proof (rule nth_equalityI)
    show "length (processed (entryInfoList d) (map Some d)) = length (map emptied d)"
      by simp
    fix i
    assume "i < length (processed (entryInfoList d) (map Some d))"
    then have i: "i < length d" by simp
    then have "(i, d ! i) \<in> set (entryInfoList d)"
      by (simp add: entryInfoList_member)
    with entryInfoList_distinct have "processed (entryInfoList d) (map Some d) ! i = emptied (d ! i)"
      by (rule processed_nth) (simp add: i)
    with i show "processed (entryInfoList d) (map Some d) ! i = map emptied d ! i"
      by simp
  qed
  then show ?thesis
    by (simp add: remaining_map_emptied)
qed

lemma listing_files:
  "(\<forall>info \<in> set (entryInfoList d). \<forall>a \<in> set (files_below [snd info]). deletable a)
     = (\<forall>a \<in> set (files_below d). deletable a)"
proof -
  have "(\<forall>info \<in> set (entryInfoList d). \<forall>a \<in> set (files_below [snd info]). deletable a)
      = (\<forall>e \<in> snd ` set (entryInfoList d). \<forall>a \<in> set (files_below [e]). deletable a)"
    by blast
  also have "\<dots> = (\<forall>a \<in> set (files_below d). deletable a)"
    unfolding entryInfoList_entries by (subst (2) files_below_entries) blast
  finally show ?thesis .
qed

lemma removeDirs_loop_result:
  "fst (removeDirs_loop infos slots)
     = (\<forall>info \<in> set infos. \<forall>a \<in> set (files_below [snd info]). deletable a)
   \<and> (fst (removeDirs_loop infos slots) \<longrightarrow>
        snd (removeDirs_loop infos slots) = processed infos slots)"
proof (induction infos slots rule: removeDirs_loop.induct)
  case (1 slots)
  then show ?case by (simp add: processed_def)
next
  case (2 i name d rest slots)
  obtain result left where sub: "removeDirs_loop (entryInfoList d) (map Some d) = (result, left)"
    by (cases "removeDirs_loop (entryInfoList d) (map Some d)")
  from "2.IH"(1) sub have result: "result = (\<forall>a \<in> set (files_below d). deletable a)"
    and left: "result \<Longrightarrow> remaining left = only_dirs d"
    by (simp_all add: listing_files processed_listing)
  show ?case
  proof (cases result)
    case False
    with sub result show ?thesis by auto
  next
    case True
    with left have skeleton: "remaining left = only_dirs d"
      by simp
    from "2.IH"(2) [OF sub [symmetric] refl] True
    have "fst (removeDirs_loop rest (slots[i := Some (name, Dir (only_dirs d))]))
        = (\<forall>info \<in> set rest. \<forall>a \<in> set (files_below [snd info]). deletable a)
      \<and> (fst (removeDirs_loop rest (slots[i := Some (name, Dir (only_dirs d))])) \<longrightarrow>
          snd (removeDirs_loop rest (slots[i := Some (name, Dir (only_dirs d))]))
            = processed rest (slots[i := Some (name, Dir (only_dirs d))]))"
      by (simp add: skeleton)
    moreover have "removeDirs_loop ((i, name, Dir d) # rest) slots
        = removeDirs_loop rest (slots[i := Some (name, Dir (only_dirs d))])"
      using sub True by (simp add: skeleton)
    moreover from True result
    have "(\<forall>info \<in> set ((i, name, Dir d) # rest). \<forall>a \<in> set (files_below [snd info]). deletable a)
        = (\<forall>info \<in> set rest. \<forall>a \<in> set (files_below [snd info]). deletable a)"
      by simp
    ultimately show ?thesis
      by (simp add: processed_Cons)
  qed
next
  case (3 i name a rest slots)
  obtain result left where one: "remove_file_entry a = (result, left)"
    by (cases "remove_file_entry a")
  with remove_file_entry_result [of a] have result: "result = deletable a"
    by simp
  show ?case
  proof (cases result)
    case False
    with one result show ?thesis by auto
  next
    case True
    with one have none: "left = None"
      by (simp add: remove_file_entry_True)
    from "3.IH" [OF one [symmetric] refl] True
    have "fst (removeDirs_loop rest (slots[i := None]))
        = (\<forall>info \<in> set rest. \<forall>a \<in> set (files_below [snd info]). deletable a)
      \<and> (fst (removeDirs_loop rest (slots[i := None])) \<longrightarrow>
          snd (removeDirs_loop rest (slots[i := None])) = processed rest (slots[i := None]))"
      by (simp add: none)
    moreover have "removeDirs_loop ((i, name, File a) # rest) slots
        = removeDirs_loop rest (slots[i := None])"
      using one True none by simp
    moreover from True result
    have "(\<forall>info \<in> set ((i, name, File a) # rest). \<forall>a \<in> set (files_below [snd info]). deletable a)
        = (\<forall>info \<in> set rest. \<forall>a \<in> set (files_below [snd info]). deletable a)"
      by simp
    ultimately show ?thesis
      by (simp add: processed_Cons)
  qed
qed

lemma removeDirs_loop_ok_step:
  assumes "\<forall>a \<in> set (files_below [snd info]). deletable a"
  shows "removeDirs_loop (info # rest) slots
      = removeDirs_loop rest (slots[fst info := emptied (snd info)])"
proof -
  obtain i name n where info: "info = (i, name, n)"
    by (cases info)
  show ?thesis
  proof (cases n)
    case (File a)
    with assms info have "deletable a" by simp
    then have "remove_file_entry a = (True, None)"
      using remove_file_entry_result [of a] remove_file_entry_True [of a]
      by (cases "remove_file_entry a") auto
    with info File show ?thesis by simp
  next
    case (Dir d)
    with assms info have ok: "\<forall>a \<in> set (files_below d). deletable a" by simp
    obtain result left where sub: "removeDirs_loop (entryInfoList d) (map Some d) = (result, left)"
      by (cases "removeDirs_loop (entryInfoList d) (map Some d)")
    from removeDirs_loop_result [of "entryInfoList d" "map Some d"] sub ok
    have "result" and "left = processed (entryInfoList d) (map Some d)"
      by (simp_all add: listing_files)
    then have "result" and "remaining left = only_dirs d"
      by (simp_all add: processed_listing)
    with sub info Dir show ?thesis by simp
  qed
qed

lemma removeDirs_loop_fail_step:
  assumes "\<exists>a \<in> set (files_below [snd info]). \<not> deletable a"
  shows "removeDirs_loop (info # rest) slots = (False, slots[fst info := left_of (snd info)])"
proof -
  obtain i name n where info: "info = (i, name, n)"
    by (cases info)
  show ?thesis
  proof (cases n)
    case (File a)
    with assms info have "\<not> deletable a" by simp
    then have "\<not> fst (remove_file_entry a)"
      by (simp add: remove_file_entry_result)
    with info File show ?thesis
      by (cases "remove_file_entry a") simp
  next
    case (Dir d)
    with assms info have "\<not> (\<forall>a \<in> set (files_below d). deletable a)" by simp
    with removeDirs_loop_result [of "entryInfoList d" "map Some d"]
    have "\<not> fst (removeDirs_loop (entryInfoList d) (map Some d))"
      by (simp add: listing_files)
    with info Dir show ?thesis
      by (cases "removeDirs_loop (entryInfoList d) (map Some d)") simp
  qed
qed

lemma removeDirs_loop_stops:
  assumes "\<forall>info \<in> set before. \<forall>a \<in> set (files_below [snd info]). deletable a"
    and "\<exists>a \<in> set (files_below [snd info]). \<not> deletable a"
  shows "removeDirs_loop (before @ info # after) slots
      = (False, (processed before slots)[fst info := left_of (snd info)])"
  using assms(1)
proof (induction before arbitrary: slots)
  case Nil
  from assms(2) show ?case
    by (simp add: removeDirs_loop_fail_step processed_def)
next
  case (Cons x before)
  then show ?case
    by (simp add: removeDirs_loop_ok_step processed_Cons)
qed

lemma removeDirs_dir:
  assumes "lookup es p = Some (Dir d)"
  shows "fst (removeDirs p es) = (\<forall>a \<in> set (files_below d). deletable a)"
    and "fst (removeDirs p es) \<Longrightarrow> snd (removeDirs p es) = put_dir p (only_dirs d) es"
proof -
  obtain r left where loop: "removeDirs_loop (entryInfoList d) (map Some d) = (r, left)"
    by (cases "removeDirs_loop (entryInfoList d) (map Some d)")
  with assms have rd: "removeDirs p es = (r, put_dir p (remaining left) es)"
    by (simp add: removeDirs_def)
  from removeDirs_loop_result [of "entryInfoList d" "map Some d"] loop
  have r: "r = (\<forall>a \<in> set (files_below d). deletable a)"
    and left: "r \<Longrightarrow> left = processed (entryInfoList d) (map Some d)"
    by (simp_all add: listing_files)
  from r rd show "fst (removeDirs p es) = (\<forall>a \<in> set (files_below d). deletable a)"
    by simp
  show "snd (removeDirs p es) = put_dir p (only_dirs d) es" if "fst (removeDirs p es)"
  proof -
    from that rd have "r" by simp
    with left have "remaining left = only_dirs d"
      by (simp add: processed_listing)
    with rd show ?thesis by simp
  qed
qed

lemma removeDirs_frame:
  assumes "\<not> prefix q p" and "\<not> prefix p q"
  shows "lookup (snd (removeDirs q es)) p = lookup es p"
  using assms
  by (auto simp: removeDirs_def lookup_put_dir_other split: option.splits node.splits prod.splits)

lemma remove_while_exists_frame:
  assumes "remove_while_exists q es = Some es'" and "\<not> prefix q p" and "\<not> prefix p q"
  shows "lookup es' p = lookup es p"
  using assms
  by (auto simp: remove_while_exists_cases lookup_unlink_other
      split: option.splits node.splits if_splits)

lemma evict_frame:
  assumes "evict q st = Some st'" and "\<not> prefix q p" and "\<not> prefix p q"
  shows "lookup (cachedFiles st') p = lookup (cachedFiles st) p"
  using assms
  by (auto simp: evict_def Let_def removeDirs_frame remove_while_exists_frame
      split: if_splits option.splits)

lemma sweep_items_frame:
  assumes "sweep_items now list st = Some st'"
    and "\<forall>q. eviction_due now (syncModes st) q \<longrightarrow> \<not> prefix q p \<and> \<not> prefix p q"
  shows "lookup (cachedFiles st') p = lookup (cachedFiles st) p"
  using assms
proof (induction list arbitrary: st)
  case Nil
  then show ?case by simp
next
  case (Cons item list)
  from Cons.prems(1) obtain st1 where
    step: "sweep_item now item st = Some st1" and rest: "sweep_items now list st1 = Some st'"
    by (auto split: option.splits)
  have same: "lookup (cachedFiles st1) p = lookup (cachedFiles st) p"
  proof (cases "eviction_due now (syncModes st) item")
    case True
    with step have "evict item st = Some st1" by (simp add: sweep_item_def)
    moreover from True Cons.prems(2) have "\<not> prefix item p" and "\<not> prefix p item" by auto
    ultimately show ?thesis by (rule evict_frame)
  next
    case False
    with step show ?thesis by (simp add: sweep_item_def)
  qed
  have "\<forall>q. eviction_due now (syncModes st1) q \<longrightarrow> \<not> prefix q p \<and> \<not> prefix p q"
    using sweep_item_syncModes [OF step] Cons.prems(2)
    by (auto simp: eviction_due_deleteSyncMode split: if_splits)
  from Cons.IH [OF rest this] same show ?case by simp
qed

text \<open>The equations that run a sweep on a given state.\<close>

lemmas sweep_eval =
  slotDeleteOnlineFiles_def getSyncModePaths_def sweep_item_def eviction_due_record evict_def
  qdir_exists_def removeDirs_def entryInfoList_def remove_file_entry_def can_remove_def
  deleteFileRecord_def deleteSyncMode_def remove_while_exists_cases getSyncMode_def
  getSyncModeDownload_def Let_def

section \<open>The claims\<close>

subsection \<open>C1\<close>

text \<open>C1. Whatever part of the snapshot the loop of the sweep has processed, the whole of it
  when the sweep returns, the record of every path whose sync mode is Offline is as it
  was: its sync mode, its download status and the time of its last access. The eviction
  branch runs only for a path whose sync mode is Online: an item for which the loop body
  does anything has that mode. The local bytes of an Offline path are as they were before
  the sweep provided no path that is due for eviction lies above or below it: a directory
  that is evicted is emptied with everything below it, whatever the records of the paths
  below it say.\<close>

theorem offline_records_untouched:
  assumes "sweep_items now list st = Some st'"
    and "getSyncMode (syncModes st) p = Some SYNCMODE_OFFLINE"
  shows "slotDeleteOnlineFiles now st = sweep_items now (getSyncModePaths (syncModes st)) st
       \<and> map_of (syncModes st') p = map_of (syncModes st) p
       \<and> ((\<forall>q. eviction_due now (syncModes st) q \<longrightarrow> \<not> prefix q p \<and> \<not> prefix p q) \<longrightarrow>
            lookup (cachedFiles st') p = lookup (cachedFiles st) p)
       \<and> (\<forall>item s. sweep_item now item s \<noteq> Some s \<longrightarrow>
            getSyncMode (syncModes s) item = Some SYNCMODE_ONLINE)"
proof -
  have slot: "slotDeleteOnlineFiles now st = sweep_items now (getSyncModePaths (syncModes st)) st"
    by (simp add: slotDeleteOnlineFiles_def Let_def)
  from assms(2) have "\<not> eviction_due now (syncModes st) p"
    by (simp add: eviction_due_def)
  then have records: "map_of (syncModes st') p = map_of (syncModes st) p"
    by (simp add: sweep_items_syncModes [OF assms(1)] map_of_filter_key)
  have bytes: "lookup (cachedFiles st') p = lookup (cachedFiles st) p"
    if "\<forall>q. eviction_due now (syncModes st) q \<longrightarrow> \<not> prefix q p \<and> \<not> prefix p q"
    using assms(1) that by (rule sweep_items_frame)
  from slot records bytes sweep_item_changes_online_only show ?thesis by blast
qed

text \<open>The sweep on a journal with an Online directory and an Offline file beside it: the
  directory is emptied, the record and the bytes of the Offline file stay.\<close>

theorem offline_records_untouched_witness:
  "slotDeleteOnlineFiles 100
     \<lparr>syncModes =
        [([''d''], \<lparr>syncMode = SYNCMODE_ONLINE, downloadStatus = SYNCMODE_DOWNLOADED_YES, lastAccessAt = 0\<rparr>),
         ([''k''], \<lparr>syncMode = SYNCMODE_OFFLINE, downloadStatus = SYNCMODE_DOWNLOADED_YES, lastAccessAt = 0\<rparr>)],
      fileRecords = [],
      cachedFiles = [(''d'', Dir [(''f'', File \<lparr>writeUser = True, inUse = False, permsLocked = False\<rparr>)]),
                     (''k'', File \<lparr>writeUser = True, inUse = False, permsLocked = False\<rparr>)]\<rparr>
   = Some
     \<lparr>syncModes =
        [([''k''], \<lparr>syncMode = SYNCMODE_OFFLINE, downloadStatus = SYNCMODE_DOWNLOADED_YES, lastAccessAt = 0\<rparr>)],
      fileRecords = [],
      cachedFiles = [(''d'', Dir []),
                     (''k'', File \<lparr>writeUser = True, inUse = False, permsLocked = False\<rparr>)]\<rparr>
   \<and> getSyncMode
        [([''d''], \<lparr>syncMode = SYNCMODE_ONLINE, downloadStatus = SYNCMODE_DOWNLOADED_YES, lastAccessAt = 0\<rparr>),
         ([''k''], \<lparr>syncMode = SYNCMODE_OFFLINE, downloadStatus = SYNCMODE_DOWNLOADED_YES, lastAccessAt = 0\<rparr>)]
        [''k''] = Some SYNCMODE_OFFLINE
   \<and> lookup [(''d'', Dir []), (''k'', File \<lparr>writeUser = True, inUse = False, permsLocked = False\<rparr>)] [''k'']
     = lookup [(''d'', Dir [(''f'', File \<lparr>writeUser = True, inUse = False, permsLocked = False\<rparr>)]),
               (''k'', File \<lparr>writeUser = True, inUse = False, permsLocked = False\<rparr>)] [''k'']"
proof -
  let ?db = "[([''d''], \<lparr>syncMode = SYNCMODE_ONLINE, downloadStatus = SYNCMODE_DOWNLOADED_YES, lastAccessAt = 0\<rparr>),
         ([''k''], \<lparr>syncMode = SYNCMODE_OFFLINE, downloadStatus = SYNCMODE_DOWNLOADED_YES, lastAccessAt = 0\<rparr>)]"
  let ?st = "\<lparr>syncModes = ?db, fileRecords = [],
      cachedFiles = [(''d'', Dir [(''f'', File \<lparr>writeUser = True, inUse = False, permsLocked = False\<rparr>)]),
                     (''k'', File \<lparr>writeUser = True, inUse = False, permsLocked = False\<rparr>)]\<rparr>"
  let ?st' = "\<lparr>syncModes =
        [([''k''], \<lparr>syncMode = SYNCMODE_OFFLINE, downloadStatus = SYNCMODE_DOWNLOADED_YES, lastAccessAt = 0\<rparr>)],
      fileRecords = [],
      cachedFiles = [(''d'', Dir []),
                     (''k'', File \<lparr>writeUser = True, inUse = False, permsLocked = False\<rparr>)]\<rparr>"
  have run: "sweep_items 100 [[''d''], [''k'']] ?st = Some ?st'"
    by (simp add: sweep_eval)
  have offline: "getSyncMode (syncModes ?st) [''k''] = Some SYNCMODE_OFFLINE"
    by (simp add: getSyncMode_def)
  have apart: "\<forall>q. eviction_due 100 (syncModes ?st) q \<longrightarrow> \<not> prefix q [''k''] \<and> \<not> prefix [''k''] q"
    by (auto simp: eviction_due_record split: if_splits)
  from offline_records_untouched [OF run offline] apart run offline show ?thesis
    by (simp add: getSyncModePaths_def)
qed

text \<open>An Offline file inside an Online directory: the sweep evicts the directory, and
  \<^verbatim>\<open>removeDirs\<close> removes the file although its own record says Offline. The record of
  the file is untouched, its bytes are gone.\<close>

theorem offline_bytes_counterexample:
  "slotDeleteOnlineFiles 100
     \<lparr>syncModes =
        [([''d''], \<lparr>syncMode = SYNCMODE_ONLINE, downloadStatus = SYNCMODE_DOWNLOADED_YES, lastAccessAt = 0\<rparr>),
         ([''d'', ''f''], \<lparr>syncMode = SYNCMODE_OFFLINE, downloadStatus = SYNCMODE_DOWNLOADED_YES, lastAccessAt = 0\<rparr>)],
      fileRecords = [],
      cachedFiles = [(''d'', Dir [(''f'', File \<lparr>writeUser = True, inUse = False, permsLocked = False\<rparr>)])]\<rparr>
   = Some
     \<lparr>syncModes =
        [([''d'', ''f''], \<lparr>syncMode = SYNCMODE_OFFLINE, downloadStatus = SYNCMODE_DOWNLOADED_YES, lastAccessAt = 0\<rparr>)],
      fileRecords = [],
      cachedFiles = [(''d'', Dir [])]\<rparr>
   \<and> lookup [(''d'', Dir [(''f'', File \<lparr>writeUser = True, inUse = False, permsLocked = False\<rparr>)])] [''d'', ''f'']
       = Some (File \<lparr>writeUser = True, inUse = False, permsLocked = False\<rparr>)
   \<and> lookup [(''d'', Dir [])] [''d'', ''f''] = None"
  by (simp add: sweep_eval)

subsection \<open>C2\<close>

text \<open>C2. The loop body runs the eviction branch for an item exactly when the item's sync mode
  is Online and the seconds since its last access are more than 65, the constant written
  in the source; otherwise it leaves the state as it is. The download status is not part
  of the condition.\<close>

theorem eviction_selection:
  "sweep_item now item st =
     (if getSyncMode (syncModes st) item = Some SYNCMODE_ONLINE
         \<and> (\<exists>secs. secondsSinceLastAccess now (syncModes st) item = Inr secs \<and> 65 <s secs)
      then evict item st else Some st)
   \<and> (slotDeleteOnlineFiles now st = Some st' \<longrightarrow>
        getSyncModePaths (syncModes st') =
          filter (\<lambda>p. \<not> (getSyncMode (syncModes st) p = Some SYNCMODE_ONLINE
              \<and> (\<exists>secs. secondsSinceLastAccess now (syncModes st) p = Inr secs \<and> 65 <s secs)))
            (getSyncModePaths (syncModes st)))"
proof -
  have due: "eviction_due now db p =
      (getSyncMode db p = Some SYNCMODE_ONLINE
       \<and> (\<exists>secs. secondsSinceLastAccess now db p = Inr secs \<and> 65 <s secs))" for db p
    by (auto simp: eviction_due_def Let_def split: sum.splits)
  have body: "sweep_item now item st =
     (if getSyncMode (syncModes st) item = Some SYNCMODE_ONLINE
         \<and> (\<exists>secs. secondsSinceLastAccess now (syncModes st) item = Inr secs \<and> 65 <s secs)
      then evict item st else Some st)"
    unfolding due [symmetric] by (simp add: sweep_item_def)
  have "getSyncModePaths (syncModes st') =
      filter (\<lambda>p. \<not> eviction_due now (syncModes st) p) (getSyncModePaths (syncModes st))"
    if "slotDeleteOnlineFiles now st = Some st'"
    unfolding slotDeleteOnlineFiles_syncModes [OF that] getSyncModePaths_def
    by (rule map_fst_filter_key)
  with body show ?thesis
    unfolding due by simp
qed

text \<open>An Online item idle for 100 seconds is evicted although its download status is
  \<^verbatim>\<open>SYNCMODE_DOWNLOADED_NONE\<close>; one idle for 60 seconds is left alone, and is the only path
  listed after the sweep.\<close>

theorem eviction_selection_witness:
  "sweep_item 100 [''a'']
     \<lparr>syncModes =
        [([''a''], \<lparr>syncMode = SYNCMODE_ONLINE, downloadStatus = SYNCMODE_DOWNLOADED_NONE, lastAccessAt = 0\<rparr>),
         ([''b''], \<lparr>syncMode = SYNCMODE_ONLINE, downloadStatus = SYNCMODE_DOWNLOADED_YES, lastAccessAt = 40\<rparr>)],
      fileRecords = [], cachedFiles = []\<rparr>
   = evict [''a'']
     \<lparr>syncModes =
        [([''a''], \<lparr>syncMode = SYNCMODE_ONLINE, downloadStatus = SYNCMODE_DOWNLOADED_NONE, lastAccessAt = 0\<rparr>),
         ([''b''], \<lparr>syncMode = SYNCMODE_ONLINE, downloadStatus = SYNCMODE_DOWNLOADED_YES, lastAccessAt = 40\<rparr>)],
      fileRecords = [], cachedFiles = []\<rparr>
   \<and> slotDeleteOnlineFiles 100
     \<lparr>syncModes =
        [([''a''], \<lparr>syncMode = SYNCMODE_ONLINE, downloadStatus = SYNCMODE_DOWNLOADED_NONE, lastAccessAt = 0\<rparr>),
         ([''b''], \<lparr>syncMode = SYNCMODE_ONLINE, downloadStatus = SYNCMODE_DOWNLOADED_YES, lastAccessAt = 40\<rparr>)],
      fileRecords = [], cachedFiles = []\<rparr>
   = Some
     \<lparr>syncModes =
        [([''b''], \<lparr>syncMode = SYNCMODE_ONLINE, downloadStatus = SYNCMODE_DOWNLOADED_YES, lastAccessAt = 40\<rparr>)],
      fileRecords = [], cachedFiles = []\<rparr>
   \<and> getSyncModePaths
        [([''b''], \<lparr>syncMode = SYNCMODE_ONLINE, downloadStatus = SYNCMODE_DOWNLOADED_YES, lastAccessAt = 40\<rparr>)]
     = [[''b'']]"
proof -
  let ?st = "\<lparr>syncModes =
        [([''a''], \<lparr>syncMode = SYNCMODE_ONLINE, downloadStatus = SYNCMODE_DOWNLOADED_NONE, lastAccessAt = 0\<rparr>),
         ([''b''], \<lparr>syncMode = SYNCMODE_ONLINE, downloadStatus = SYNCMODE_DOWNLOADED_YES, lastAccessAt = 40\<rparr>)],
      fileRecords = [], cachedFiles = []\<rparr>"
  let ?st' = "\<lparr>syncModes =
        [([''b''], \<lparr>syncMode = SYNCMODE_ONLINE, downloadStatus = SYNCMODE_DOWNLOADED_YES, lastAccessAt = 40\<rparr>)],
      fileRecords = [], cachedFiles = []\<rparr>"
  have run: "slotDeleteOnlineFiles 100 ?st = Some ?st'"
    by (simp add: sweep_eval)
  from eviction_selection [of 100 "[''a'']" ?st ?st'] run
  show ?thesis
    by (simp add: getSyncMode_def secondsSinceLastAccess_def getSyncModePaths_def)
qed

text \<open>Two Online paths idle for 100 seconds, one with status \<^verbatim>\<open>SYNCMODE_DOWNLOADED_NONE\<close> and one
  with \<^verbatim>\<open>SYNCMODE_DOWNLOADED_NO\<close>: the sweep removes the files and the records of both.\<close>

theorem download_status_ignored_counterexample:
  "getSyncModeDownload
     [([''a''], \<lparr>syncMode = SYNCMODE_ONLINE, downloadStatus = SYNCMODE_DOWNLOADED_NONE, lastAccessAt = 0\<rparr>),
      ([''b''], \<lparr>syncMode = SYNCMODE_ONLINE, downloadStatus = SYNCMODE_DOWNLOADED_NO, lastAccessAt = 0\<rparr>)]
     [''a''] = Some SYNCMODE_DOWNLOADED_NONE
   \<and> slotDeleteOnlineFiles 100
     \<lparr>syncModes =
        [([''a''], \<lparr>syncMode = SYNCMODE_ONLINE, downloadStatus = SYNCMODE_DOWNLOADED_NONE, lastAccessAt = 0\<rparr>),
         ([''b''], \<lparr>syncMode = SYNCMODE_ONLINE, downloadStatus = SYNCMODE_DOWNLOADED_NO, lastAccessAt = 0\<rparr>)],
      fileRecords = [],
      cachedFiles = [(''a'', File \<lparr>writeUser = True, inUse = False, permsLocked = False\<rparr>),
                     (''b'', File \<lparr>writeUser = True, inUse = False, permsLocked = False\<rparr>)]\<rparr>
   = Some \<lparr>syncModes = [], fileRecords = [], cachedFiles = []\<rparr>"
  by (simp add: sweep_eval)

subsection \<open>C3\<close>

text \<open>C3. After a sweep that returns, a path that was due for eviction has no record left:
  \<^verbatim>\<open>deleteSyncMode\<close> has removed it, so the path has neither a sync mode nor a download
  status and is not listed any more. The record of a path that was not due is as it was.\<close>

theorem evicted_record_is_deleted:
  assumes "slotDeleteOnlineFiles now st = Some st'"
    and "eviction_due now (syncModes st) item"
  shows "getSyncMode (syncModes st') item = None
       \<and> getSyncModeDownload (syncModes st') item = None
       \<and> item \<notin> set (getSyncModePaths (syncModes st'))
       \<and> (\<forall>q. \<not> eviction_due now (syncModes st) q \<longrightarrow>
            map_of (syncModes st') q = map_of (syncModes st) q)"
proof -
  note db' = slotDeleteOnlineFiles_syncModes [OF assms(1)]
  from assms(2) have gone: "map_of (syncModes st') item = None"
    by (simp add: db' map_of_filter_key)
  have "item \<notin> set (getSyncModePaths (syncModes st'))"
    using assms(2) by (auto simp: db' getSyncModePaths_def)
  moreover have "map_of (syncModes st') q = map_of (syncModes st) q"
    if "\<not> eviction_due now (syncModes st) q" for q
    using that by (simp add: db' map_of_filter_key)
  ultimately show ?thesis
    using gone by (simp add: getSyncMode_def getSyncModeDownload_def)
qed

text \<open>A file idle for 700 seconds next to one idle for 10 seconds: the first loses its bytes
  and its record, the second keeps both.\<close>

theorem evicted_record_is_deleted_witness:
  "slotDeleteOnlineFiles 1000
     \<lparr>syncModes =
        [([''docs'', ''report.pdf''],
          \<lparr>syncMode = SYNCMODE_ONLINE, downloadStatus = SYNCMODE_DOWNLOADED_YES, lastAccessAt = 300\<rparr>),
         ([''docs'', ''new.txt''],
          \<lparr>syncMode = SYNCMODE_ONLINE, downloadStatus = SYNCMODE_DOWNLOADED_YES, lastAccessAt = 990\<rparr>)],
      fileRecords = [],
      cachedFiles =
        [(''docs'', Dir [(''report.pdf'', File \<lparr>writeUser = True, inUse = False, permsLocked = False\<rparr>),
                        (''new.txt'', File \<lparr>writeUser = True, inUse = False, permsLocked = False\<rparr>)])]\<rparr>
   = Some
     \<lparr>syncModes =
        [([''docs'', ''new.txt''],
          \<lparr>syncMode = SYNCMODE_ONLINE, downloadStatus = SYNCMODE_DOWNLOADED_YES, lastAccessAt = 990\<rparr>)],
      fileRecords = [],
      cachedFiles =
        [(''docs'', Dir [(''new.txt'', File \<lparr>writeUser = True, inUse = False, permsLocked = False\<rparr>)])]\<rparr>
   \<and> eviction_due 1000
        [([''docs'', ''report.pdf''],
          \<lparr>syncMode = SYNCMODE_ONLINE, downloadStatus = SYNCMODE_DOWNLOADED_YES, lastAccessAt = 300\<rparr>),
         ([''docs'', ''new.txt''],
          \<lparr>syncMode = SYNCMODE_ONLINE, downloadStatus = SYNCMODE_DOWNLOADED_YES, lastAccessAt = 990\<rparr>)]
        [''docs'', ''report.pdf'']
   \<and> getSyncMode
        [([''docs'', ''new.txt''],
          \<lparr>syncMode = SYNCMODE_ONLINE, downloadStatus = SYNCMODE_DOWNLOADED_YES, lastAccessAt = 990\<rparr>)]
        [''docs'', ''report.pdf''] = None"
proof -
  let ?st = "\<lparr>syncModes =
        [([''docs'', ''report.pdf''],
          \<lparr>syncMode = SYNCMODE_ONLINE, downloadStatus = SYNCMODE_DOWNLOADED_YES, lastAccessAt = 300\<rparr>),
         ([''docs'', ''new.txt''],
          \<lparr>syncMode = SYNCMODE_ONLINE, downloadStatus = SYNCMODE_DOWNLOADED_YES, lastAccessAt = 990\<rparr>)],
      fileRecords = [],
      cachedFiles =
        [(''docs'', Dir [(''report.pdf'', File \<lparr>writeUser = True, inUse = False, permsLocked = False\<rparr>),
                        (''new.txt'', File \<lparr>writeUser = True, inUse = False, permsLocked = False\<rparr>)])]\<rparr>"
  let ?st' = "\<lparr>syncModes =
        [([''docs'', ''new.txt''],
          \<lparr>syncMode = SYNCMODE_ONLINE, downloadStatus = SYNCMODE_DOWNLOADED_YES, lastAccessAt = 990\<rparr>)],
      fileRecords = [],
      cachedFiles =
        [(''docs'', Dir [(''new.txt'', File \<lparr>writeUser = True, inUse = False, permsLocked = False\<rparr>)])]\<rparr>"
  have run: "slotDeleteOnlineFiles 1000 ?st = Some ?st'"
    by (simp add: sweep_eval)
  have due: "eviction_due 1000 (syncModes ?st) [''docs'', ''report.pdf'']"
    by (simp add: eviction_due_record)
  from evicted_record_is_deleted [OF run due] run due show ?thesis
    by simp
qed

text \<open>Scenario A of the spec, a fully downloaded Online file last used 700 seconds ago: after
  the sweep the journal is empty, so the path has no download status and no sync mode.\<close>

theorem scenario_A_counterexample:
  "slotDeleteOnlineFiles 1000
     \<lparr>syncModes =
        [([''docs'', ''report.pdf''],
          \<lparr>syncMode = SYNCMODE_ONLINE, downloadStatus = SYNCMODE_DOWNLOADED_YES, lastAccessAt = 300\<rparr>)],
      fileRecords = [[''docs'', ''report.pdf'']],
      cachedFiles =
        [(''docs'', Dir [(''report.pdf'', File \<lparr>writeUser = True, inUse = False, permsLocked = False\<rparr>)])]\<rparr>
   = Some \<lparr>syncModes = [], fileRecords = [], cachedFiles = [(''docs'', Dir [])]\<rparr>
   \<and> getSyncModeDownload [] [''docs'', ''report.pdf''] = None
   \<and> getSyncMode [] [''docs'', ''report.pdf''] = None"
  by (simp add: sweep_eval)

subsection \<open>C4\<close>

text \<open>C4. When an evicted path names a directory and the loop of \<^verbatim>\<open>removeDirs\<close> comes, in
  its listing (directories first, by name), to an entry with a file that cannot be
  removed even by the retry with the write permission granted, \<^verbatim>\<open>removeDirs\<close> stops there
  and returns false: the entries listed before it have been emptied, the entries listed
  after it are as they were. The sweep drops that result, deletes the record of the path
  all the same and goes on with the remaining paths of the snapshot.\<close>

theorem failed_directory_deletion_still_drops_record:
  assumes "eviction_due now (syncModes st) item"
    and "lookup (cachedFiles st) item = Some (Dir d)"
    and "entryInfoList d = before @ (j, e) # after"
    and "\<forall>info \<in> set before. \<forall>a \<in> set (files_below [snd info]). deletable a"
    and "\<exists>a \<in> set (files_below [e]). \<not> deletable a"
  shows "(let slots = (processed before (map Some d))[j := left_of e];
              cached = put_dir item (remaining slots) (cachedFiles st)
          in removeDirs item (cachedFiles st) = (False, cached)
             \<and> (\<forall>info \<in> set before. slots ! fst info = emptied (snd info))
             \<and> slots ! j = left_of e
             \<and> (\<forall>info \<in> set after. slots ! fst info = Some (snd info))
             \<and> sweep_items now (item # list) st =
                 sweep_items now list
                   (st\<lparr>cachedFiles := cached,
                       fileRecords := deleteFileRecord item True (fileRecords st),
                       syncModes := deleteSyncMode item (syncModes st)\<rparr>)
             \<and> getSyncMode (deleteSyncMode item (syncModes st)) item = None)"
proof -
  let ?slots = "(processed before (map Some d))[j := left_of e]"
  let ?cached = "put_dir item (remaining ?slots) (cachedFiles st)"
  from assms(4,5) have "removeDirs_loop (before @ (j, e) # after) (map Some d) = (False, ?slots)"
    using removeDirs_loop_stops [of before "(j, e)" after "map Some d"] by simp
  with assms(2,3) have stops: "removeDirs item (cachedFiles st) = (False, ?cached)"
    by (simp add: removeDirs_def)
  have apart: "distinct (map fst (before @ (j, e) # after))"
    using entryInfoList_distinct [of d] by (simp only: assms(3))
  have listed: "fst info < length d \<and> snd info = d ! fst info"
    if "info \<in> set (before @ (j, e) # after)" for info
    using that entryInfoList_member [of "fst info" "snd info" d] by (simp only: assms(3)) simp
  have earlier: "?slots ! fst info = emptied (snd info)" if "info \<in> set before" for info
  proof -
    from apart that have "fst info \<noteq> j" by auto
    moreover from apart have "distinct (map fst before)" by simp
    moreover from that have "(fst info, snd info) \<in> set before" by simp
    moreover from that listed have "fst info < length (map Some d)" by simp
    ultimately show ?thesis
      by (simp add: processed_nth)
  qed
  have here: "?slots ! j = left_of e"
    using listed [of "(j, e)"] by simp
  have later: "?slots ! fst info = Some (snd info)" if "info \<in> set after" for info
  proof -
    from apart that have "fst info \<noteq> j" and "fst info \<notin> fst ` set before" by auto
    then have "?slots ! fst info = map Some d ! fst info"
      by (simp add: processed_nth_other)
    with that listed [of info] show ?thesis by simp
  qed
  from assms(2) have "qdir_exists (cachedFiles st) item"
    by (simp add: qdir_exists_def)
  with assms(1) stops have "sweep_item now item st =
      Some (st\<lparr>cachedFiles := ?cached,
               fileRecords := deleteFileRecord item True (fileRecords st),
               syncModes := deleteSyncMode item (syncModes st)\<rparr>)"
    by (simp add: sweep_item_def evict_def)
  then have continues: "sweep_items now (item # list) st =
      sweep_items now list
        (st\<lparr>cachedFiles := ?cached,
            fileRecords := deleteFileRecord item True (fileRecords st),
            syncModes := deleteSyncMode item (syncModes st)\<rparr>)"
    by simp
  have "getSyncMode (deleteSyncMode item (syncModes st)) item = None"
    by (simp add: getSyncMode_def map_of_deleteSyncMode)
  with stops earlier here later continues show ?thesis
    by (simp add: Let_def)
qed

text \<open>A directory that holds, in this order, a removable file \<^verbatim>\<open>z\<close>, a directory \<^verbatim>\<open>s\<close> with
  a removable file, and a read-only file \<^verbatim>\<open>a\<close> that is in use; after it in the snapshot a
  removable file. The listing is \<^verbatim>\<open>s\<close>, \<^verbatim>\<open>a\<close>, \<^verbatim>\<open>z\<close>: \<^verbatim>\<open>s\<close> is emptied, \<^verbatim>\<open>a\<close> stays (now
  writable), \<^verbatim>\<open>z\<close> is never reached. Both records are deleted and the second path is
  evicted.\<close>

theorem failed_directory_deletion_still_drops_record_witness:
  "eviction_due 100
     [([''d''], \<lparr>syncMode = SYNCMODE_ONLINE, downloadStatus = SYNCMODE_DOWNLOADED_YES, lastAccessAt = 0\<rparr>),
      ([''e''], \<lparr>syncMode = SYNCMODE_ONLINE, downloadStatus = SYNCMODE_DOWNLOADED_YES, lastAccessAt = 0\<rparr>)]
     [''d'']
   \<and> entryInfoList
        [(''z'', File \<lparr>writeUser = True, inUse = False, permsLocked = False\<rparr>),
         (''s'', Dir [(''g'', File \<lparr>writeUser = True, inUse = False, permsLocked = False\<rparr>)]),
         (''a'', File \<lparr>writeUser = False, inUse = True, permsLocked = False\<rparr>)]
       = [(1, ''s'', Dir [(''g'', File \<lparr>writeUser = True, inUse = False, permsLocked = False\<rparr>)])]
         @ (2, ''a'', File \<lparr>writeUser = False, inUse = True, permsLocked = False\<rparr>)
         # [(0, ''z'', File \<lparr>writeUser = True, inUse = False, permsLocked = False\<rparr>)]
   \<and> deletable \<lparr>writeUser = True, inUse = False, permsLocked = False\<rparr>
   \<and> \<not> deletable \<lparr>writeUser = False, inUse = True, permsLocked = False\<rparr>
   \<and> sweep_items 100 [[''d''], [''e'']]
     \<lparr>syncModes =
        [([''d''], \<lparr>syncMode = SYNCMODE_ONLINE, downloadStatus = SYNCMODE_DOWNLOADED_YES, lastAccessAt = 0\<rparr>),
         ([''e''], \<lparr>syncMode = SYNCMODE_ONLINE, downloadStatus = SYNCMODE_DOWNLOADED_YES, lastAccessAt = 0\<rparr>)],
      fileRecords = [],
      cachedFiles =
        [(''d'', Dir [(''z'', File \<lparr>writeUser = True, inUse = False, permsLocked = False\<rparr>),
                     (''s'', Dir [(''g'', File \<lparr>writeUser = True, inUse = False, permsLocked = False\<rparr>)]),
                     (''a'', File \<lparr>writeUser = False, inUse = True, permsLocked = False\<rparr>)]),
         (''e'', File \<lparr>writeUser = True, inUse = False, permsLocked = False\<rparr>)]\<rparr>
   = Some
     \<lparr>syncModes = [], fileRecords = [],
      cachedFiles =
        [(''d'', Dir [(''z'', File \<lparr>writeUser = True, inUse = False, permsLocked = False\<rparr>),
                     (''s'', Dir []),
                     (''a'', File \<lparr>writeUser = True, inUse = True, permsLocked = False\<rparr>)])]\<rparr>"
proof -
  let ?ok = "\<lparr>writeUser = True, inUse = False, permsLocked = False\<rparr>"
  let ?busy = "\<lparr>writeUser = False, inUse = True, permsLocked = False\<rparr>"
  let ?r = "\<lparr>syncMode = SYNCMODE_ONLINE, downloadStatus = SYNCMODE_DOWNLOADED_YES, lastAccessAt = 0\<rparr>"
  let ?d = "[(''z'', File ?ok), (''s'', Dir [(''g'', File ?ok)]), (''a'', File ?busy)]"
  let ?st = "\<lparr>syncModes = [([''d''], ?r), ([''e''], ?r)], fileRecords = [],
      cachedFiles = [(''d'', Dir ?d), (''e'', File ?ok)]\<rparr>"
  have due: "eviction_due 100 (syncModes ?st) [''d'']"
    by (simp add: eviction_due_record)
  have dir: "lookup (cachedFiles ?st) [''d''] = Some (Dir ?d)"
    by simp
  have listing: "entryInfoList ?d
      = [(1, ''s'', Dir [(''g'', File ?ok)])] @ (2, ''a'', File ?busy) # [(0, ''z'', File ?ok)]"
    by (simp add: entryInfoList_def)
  have fine: "deletable ?ok" and blocked: "\<not> deletable ?busy"
    by (simp_all add: deletable_def)
  have before: "\<forall>info \<in> set [(1, ''s'', Dir [(''g'', File ?ok)])].
      \<forall>a \<in> set (files_below [snd info]). deletable a"
    using fine by simp
  have failing: "\<exists>a \<in> set (files_below [(''a'', File ?busy)]). \<not> deletable a"
    using blocked by simp
  from failed_directory_deletion_still_drops_record [OF due dir listing before failing, of "[[''e'']]"]
    due listing fine blocked
  show ?thesis
    by (simp add: Let_def processed_def remove_file_entry_def can_remove_def sweep_eval)
qed

text \<open>A directory whose only file is in use: \<^verbatim>\<open>removeDirs\<close> fails on it, and the sweep still
  deletes the record of the directory.\<close>

theorem failed_deletion_counterexample:
  "slotDeleteOnlineFiles 100
     \<lparr>syncModes =
        [([''d''], \<lparr>syncMode = SYNCMODE_ONLINE, downloadStatus = SYNCMODE_DOWNLOADED_YES, lastAccessAt = 0\<rparr>),
         ([''e''], \<lparr>syncMode = SYNCMODE_ONLINE, downloadStatus = SYNCMODE_DOWNLOADED_YES, lastAccessAt = 0\<rparr>)],
      fileRecords = [],
      cachedFiles =
        [(''d'', Dir [(''f'', File \<lparr>writeUser = True, inUse = True, permsLocked = False\<rparr>)]),
         (''e'', File \<lparr>writeUser = True, inUse = False, permsLocked = False\<rparr>)]\<rparr>
   = Some
     \<lparr>syncModes = [], fileRecords = [],
      cachedFiles = [(''d'', Dir [(''f'', File \<lparr>writeUser = True, inUse = True, permsLocked = False\<rparr>)])]\<rparr>
   \<and> fst (removeDirs [''d'']
        [(''d'', Dir [(''f'', File \<lparr>writeUser = True, inUse = True, permsLocked = False\<rparr>)]),
         (''e'', File \<lparr>writeUser = True, inUse = False, permsLocked = False\<rparr>)]) = False"
  by (simp add: sweep_eval)

subsection \<open>C5\<close>

text \<open>C5. When \<^verbatim>\<open>QFile::remove\<close> fails on a file listed by \<^verbatim>\<open>removeDirs\<close> and the file lacks the
  user write bit, \<^verbatim>\<open>removeDirs\<close> sets the bit and, if that succeeded, calls
  \<^verbatim>\<open>QFile::remove\<close> one more time; the outcome of that second call is the result for the
  file. So an evicted directory whose files are neither in use nor closed to a change of
  permissions is emptied of its files, read-only ones included, and the record of the
  directory is then deleted from the journal.\<close>

theorem read_only_file_in_directory_removed_on_retry:
  "(\<not> writeUser a \<longrightarrow>
      remove_file_entry a =
        (if permsLocked a then (False, Some a)
         else if inUse a then (False, Some (a\<lparr>writeUser := True\<rparr>))
         else (True, None)))
   \<and> (eviction_due now (syncModes st) item
       \<and> lookup (cachedFiles st) item = Some (Dir d)
       \<and> (\<forall>a \<in> set (files_below d). \<not> inUse a \<and> \<not> permsLocked a) \<longrightarrow>
      sweep_item now item st =
        Some (st\<lparr>cachedFiles := put_dir item (only_dirs d) (cachedFiles st),
                 fileRecords := deleteFileRecord item True (fileRecords st),
                 syncModes := deleteSyncMode item (syncModes st)\<rparr>)
      \<and> files_below (only_dirs d) = []
      \<and> getSyncModeDownload (deleteSyncMode item (syncModes st)) item = None)"
proof -
  have retry: "remove_file_entry a =
        (if permsLocked a then (False, Some a)
         else if inUse a then (False, Some (a\<lparr>writeUser := True\<rparr>))
         else (True, None))" if "\<not> writeUser a"
    using that by (simp add: remove_file_entry_def can_remove_def)
  have sweep: "sweep_item now item st =
        Some (st\<lparr>cachedFiles := put_dir item (only_dirs d) (cachedFiles st),
                 fileRecords := deleteFileRecord item True (fileRecords st),
                 syncModes := deleteSyncMode item (syncModes st)\<rparr>)"
    if due: "eviction_due now (syncModes st) item"
      and dir: "lookup (cachedFiles st) item = Some (Dir d)"
      and files: "\<forall>a \<in> set (files_below d). \<not> inUse a \<and> \<not> permsLocked a"
  proof -
    from files have "\<forall>a \<in> set (files_below d). deletable a"
      by (simp add: deletable_def)
    with dir have "fst (removeDirs item (cachedFiles st))"
      by (simp add: removeDirs_dir(1))
    with dir have "snd (removeDirs item (cachedFiles st)) = put_dir item (only_dirs d) (cachedFiles st)"
      by (rule removeDirs_dir(2))
    moreover from dir have "qdir_exists (cachedFiles st) item"
      by (simp add: qdir_exists_def)
    ultimately show ?thesis
      using due by (simp add: sweep_item_def evict_def)
  qed
  have "getSyncModeDownload (deleteSyncMode item (syncModes st)) item = None"
    by (simp add: getSyncModeDownload_def map_of_deleteSyncMode)
  with retry sweep show ?thesis
    by (simp add: files_below_only_dirs)
qed

text \<open>A read-only file is removed by the retry, and the sweep of the directory that holds it
  leaves the directory empty and the journal without the record.\<close>

theorem read_only_file_in_directory_removed_on_retry_witness:
  "remove_file_entry \<lparr>writeUser = False, inUse = False, permsLocked = False\<rparr> = (True, None)
   \<and> sweep_item 100 [''d'']
     \<lparr>syncModes =
        [([''d''], \<lparr>syncMode = SYNCMODE_ONLINE, downloadStatus = SYNCMODE_DOWNLOADED_YES, lastAccessAt = 0\<rparr>)],
      fileRecords = [],
      cachedFiles = [(''d'', Dir [(''f'', File \<lparr>writeUser = False, inUse = False, permsLocked = False\<rparr>)])]\<rparr>
   = Some \<lparr>syncModes = [], fileRecords = [], cachedFiles = [(''d'', Dir [])]\<rparr>"
proof -
  let ?a = "\<lparr>writeUser = False, inUse = False, permsLocked = False\<rparr>"
  let ?st = "\<lparr>syncModes =
        [([''d''], \<lparr>syncMode = SYNCMODE_ONLINE, downloadStatus = SYNCMODE_DOWNLOADED_YES, lastAccessAt = 0\<rparr>)],
      fileRecords = [],
      cachedFiles = [(''d'', Dir [(''f'', File ?a)])]\<rparr>"
  have due: "eviction_due 100 (syncModes ?st) [''d'']"
    by (simp add: eviction_due_record)
  have dir: "lookup (cachedFiles ?st) [''d''] = Some (Dir [(''f'', File ?a)])"
    by simp
  have files: "\<forall>a \<in> set (files_below [(''f'', File ?a)]). \<not> inUse a \<and> \<not> permsLocked a"
    by simp
  from read_only_file_in_directory_removed_on_retry [of ?a 100 ?st "[''d'']" "[(''f'', File ?a)]"]
    due dir files
  show ?thesis
    by (simp add: deleteFileRecord_def deleteSyncMode_def)
qed

text \<open>A directory with a read-only file: the retry removes the file, and afterwards the path
  has no download status at all, since its record is deleted.\<close>

theorem read_only_retry_counterexample:
  "slotDeleteOnlineFiles 100
     \<lparr>syncModes =
        [([''d''], \<lparr>syncMode = SYNCMODE_ONLINE, downloadStatus = SYNCMODE_DOWNLOADED_YES, lastAccessAt = 0\<rparr>)],
      fileRecords = [],
      cachedFiles = [(''d'', Dir [(''f'', File \<lparr>writeUser = False, inUse = False, permsLocked = False\<rparr>)])]\<rparr>
   = Some \<lparr>syncModes = [], fileRecords = [], cachedFiles = [(''d'', Dir [])]\<rparr>
   \<and> getSyncModeDownload [] [''d''] = None"
  by (simp add: sweep_eval)

subsection \<open>C6\<close>

text \<open>C6. \<^verbatim>\<open>slotCheckConnection\<close> calls \<^verbatim>\<open>checkConnectivity\<close> on no account whose state is
  SignedOut, ConfigurationError or AskingCredentials: such an account is the same after
  the slot has run, and after any number of timer intervals, whatever
  \<^verbatim>\<open>checkConnectivity\<close> does to the accounts it is called on. Every call the timer makes is
  on an account that is Connecting or Connected at that moment. So, in any sequence of
  timer intervals, connection checks, sign-outs and re-authentications, no event takes an
  account from SignedOut to Connected, and an account that is SignedOut at one moment and
  Connected at a later one is Connecting at some moment in between.\<close>

theorem periodic_check_skips_settled_accounts:
  assumes "i < length (accounts app)"
  shows "(state (accounts app ! i) = SignedOut \<or> state (accounts app ! i) = ConfigurationError
            \<or> state (accounts app ! i) = AskingCredentials \<longrightarrow>
          accounts (slotCheckConnection checkConnectivity app) ! i = accounts app ! i
          \<and> accounts (timeouts checkConnectivity n app) ! i = accounts app ! i)
       \<and> (\<forall>a. CheckConnectivity a \<in> set (calls (timeouts checkConnectivity n app)) \<longrightarrow>
              CheckConnectivity a \<in> set (calls app) \<or> state a = Connecting \<or> state a = Connected)
       \<and> (\<forall>k. k < length events \<and> state (accounts (trace events app ! k) ! i) = SignedOut \<longrightarrow>
              state (accounts (trace events app ! Suc k) ! i) \<noteq> Connected)
       \<and> (\<forall>k m. k < m \<and> m \<le> length events
              \<and> state (accounts (trace events app ! k) ! i) = SignedOut
              \<and> state (accounts (trace events app ! m) ! i) = Connected \<longrightarrow>
              (\<exists>l. k < l \<and> l < m \<and> state (accounts (trace events app ! l) ! i) = Connecting))"
proof -
  have timer: "accounts (slotCheckConnection checkConnectivity app) ! i = accounts app ! i
      \<and> accounts (timeouts checkConnectivity n app) ! i = accounts app ! i"
    if "state (accounts app ! i) = SignedOut \<or> state (accounts app ! i) = ConfigurationError
        \<or> state (accounts app ! i) = AskingCredentials"
  proof -
    from that have settled:
      "state (accounts app ! i) \<in> {SignedOut, ConfigurationError, AskingCredentials}"
      by auto
    have "accounts (slotCheckConnection checkConnectivity app) ! i = accounts app ! i"
      using assms settled by (simp add: slotCheckConnection_accounts check_accounts_settled)
    moreover have "accounts (timeouts checkConnectivity n app) ! i = accounts app ! i"
      using timeouts_settled [OF assms settled] by simp
    ultimately show ?thesis by simp
  qed
  have probes: "\<forall>a. CheckConnectivity a \<in> set (calls (timeouts checkConnectivity n app)) \<longrightarrow>
      CheckConnectivity a \<in> set (calls app) \<or> state a = Connecting \<or> state a = Connected"
    using timeouts_calls by blast
  let ?s = "\<lambda>k. state (accounts (trace events app ! k) ! i)"
  have step: "?s j = Connecting \<or> ?s j = Connected" if "j < length events" and "?s (Suc j) = Connected" for j
    using assms that by (rule trace_step_Connected)
  have direct: "?s (Suc k) \<noteq> Connected" if "k < length events" and "?s k = SignedOut" for k
    using step [OF that(1)] that(2) by auto
  have through: "\<exists>l. k < l \<and> l < m \<and> ?s l = Connecting"
    if "k < m" and "m \<le> length events" and "?s k = SignedOut" and "?s m = Connected" for k m
    using through_Connecting [of "length events" ?s k m] step that by blast
  from timer probes direct through show ?thesis
    by blast
qed

text \<open>A signed-out account over three events: a timer interval leaves it signed out, a
  re-authentication makes it Connecting, and the next interval, with a probe that
  succeeds, makes it Connected. Timer intervals alone never change it.\<close>

theorem periodic_check_skips_settled_accounts_witness:
  "(0::nat) < length [\<lparr>identity = ''bob'', state = SignedOut, lastCheckedAt = 0\<rparr>]
   \<and> map (\<lambda>app. state (accounts app ! 0))
       (trace [TimerTimeout (\<lambda>a. Success), Reauthenticate 0, TimerTimeout (\<lambda>a. Success)]
          \<lparr>accounts = [\<lparr>identity = ''bob'', state = SignedOut, lastCheckedAt = 0\<rparr>],
           checkConnectionTimerActive = True, calls = []\<rparr>)
     = [SignedOut, SignedOut, Connecting, Connected]
   \<and> accounts (timeouts (\<lambda>a. a\<lparr>state := Connected\<rparr>) (Suc (Suc 0))
        \<lparr>accounts = [\<lparr>identity = ''bob'', state = SignedOut, lastCheckedAt = 0\<rparr>],
         checkConnectionTimerActive = True, calls = []\<rparr>) ! 0
     = \<lparr>identity = ''bob'', state = SignedOut, lastCheckedAt = 0\<rparr>"
proof -
  let ?app = "\<lparr>accounts = [\<lparr>identity = ''bob'', state = SignedOut, lastCheckedAt = 0\<rparr>],
           checkConnectionTimerActive = True, calls = []\<rparr>"
  have position: "0 < length (accounts ?app)"
    by simp
  have run: "map (\<lambda>app. state (accounts app ! 0))
       (trace [TimerTimeout (\<lambda>a. Success), Reauthenticate 0, TimerTimeout (\<lambda>a. Success)] ?app)
     = [SignedOut, SignedOut, Connecting, Connected]"
    by (simp add: checkConnectionTimer_timeout_def slotCheckConnection_def at_account_def
        AccountState_checkConnectivity_def)
  from periodic_check_skips_settled_accounts [OF position,
      of "\<lambda>a. a\<lparr>state := Connected\<rparr>" "Suc (Suc 0)"
         "[TimerTimeout (\<lambda>a. Success), Reauthenticate 0, TimerTimeout (\<lambda>a. Success)]"] run
  show ?thesis
    by simp
qed

subsection \<open>C7\<close>

text \<open>C7. With no account registered, \<^verbatim>\<open>slotCheckConnection\<close> calls
  \<^verbatim>\<open>_gui->slotOpenSettingsDialog()\<close>, which opens the setup wizard, and stops
  \<^verbatim>\<open>_checkConnectionTimer\<close>, so that later intervals do nothing. With no account left,
  \<^verbatim>\<open>slotAccountStateRemoved\<close> calls \<^verbatim>\<open>OwncloudSetupWizard::runWizard\<close>; this is what happens
  when the last account is removed. Both calls are signals to the setup flow.\<close>

theorem no_accounts_opens_setup_wizard:
  "(accounts app = [] \<longrightarrow>
      calls (slotCheckConnection checkConnectivity app) = calls app @ [SlotOpenSettingsDialog]
      \<and> setup_flow_signal SlotOpenSettingsDialog
      \<and> \<not> checkConnectionTimerActive (slotCheckConnection checkConnectivity app)
      \<and> timeouts checkConnectivity n (slotCheckConnection checkConnectivity app)
          = slotCheckConnection checkConnectivity app
      \<and> calls (slotAccountStateRemoved accountState app) = calls app @ [RunWizard]
      \<and> setup_flow_signal RunWizard)
   \<and> (accounts app = [accountState] \<longrightarrow>
      calls (removeAccount accountState app) = calls app @ [RunWizard])"
proof -
  have stopped: "\<not> checkConnectionTimerActive (slotCheckConnection checkConnectivity app)"
    if "accounts app = []"
    using that by (simp add: slotCheckConnection_def)
  have "calls (slotCheckConnection checkConnectivity app) = calls app @ [SlotOpenSettingsDialog]"
    if "accounts app = []"
    using that by (simp add: slotCheckConnection_def)
  moreover have "calls (slotAccountStateRemoved accountState app) = calls app @ [RunWizard]"
    if "accounts app = []"
    using that by (simp add: slotAccountStateRemoved_def)
  moreover have "calls (removeAccount accountState app) = calls app @ [RunWizard]"
    if "accounts app = [accountState]"
    using that by (simp add: removeAccount_def slotAccountStateRemoved_def)
  ultimately show ?thesis
    using stopped timeouts_stopped by simp
qed

text \<open>The check on an empty account list, and the removal of the only account.\<close>

theorem no_accounts_opens_setup_wizard_witness:
  "calls (slotCheckConnection (\<lambda>a. a) \<lparr>accounts = [], checkConnectionTimerActive = True, calls = []\<rparr>)
     = [SlotOpenSettingsDialog]
   \<and> calls (removeAccount \<lparr>identity = ''alice'', state = Connected, lastCheckedAt = 0\<rparr>
        \<lparr>accounts = [\<lparr>identity = ''alice'', state = Connected, lastCheckedAt = 0\<rparr>],
         checkConnectionTimerActive = True, calls = []\<rparr>) = [RunWizard]"
  using no_accounts_opens_setup_wizard [of "\<lparr>accounts = [], checkConnectionTimerActive = True, calls = []\<rparr>"
      "\<lambda>a. a" 0 "\<lparr>identity = ''alice'', state = Connected, lastCheckedAt = 0\<rparr>"]
    no_accounts_opens_setup_wizard [of
      "\<lparr>accounts = [\<lparr>identity = ''alice'', state = Connected, lastCheckedAt = 0\<rparr>],
         checkConnectionTimerActive = True, calls = []\<rparr>"
      "\<lambda>a. a" 0 "\<lparr>identity = ''alice'', state = Connected, lastCheckedAt = 0\<rparr>"]
  by simp

subsection \<open>C8\<close>

text \<open>C8. A sweep run on the state that a sweep has just returned, at the same clock reading,
  returns that state again: journal, metadata rows and cached files are all as the first
  sweep left them.\<close>

theorem sweep_twice:
  assumes "slotDeleteOnlineFiles now st = Some st'"
  shows "slotDeleteOnlineFiles now st' = Some st'"
proof -
  let ?db = "syncModes st"
  have db': "syncModes st' = filter (\<lambda>(k, r). \<not> eviction_due now ?db k) ?db"
    by (rule slotDeleteOnlineFiles_syncModes [OF assms])
  have "\<not> eviction_due now (syncModes st') k" for k
  proof (cases "eviction_due now ?db k")
    case True
    then have "map_of (syncModes st') k = None"
      by (simp add: db' map_of_filter_key)
    then show ?thesis
      by (simp add: eviction_due_record)
  next
    case False
    then have "map_of (syncModes st') k = map_of ?db k"
      by (simp add: db' map_of_filter_key)
    with False show ?thesis
      by (simp add: eviction_due_record)
  qed
  then have "sweep_items now (getSyncModePaths (syncModes st')) st' = Some st'"
    by (intro sweep_items_nothing_due) simp
  then show ?thesis
    by (simp add: slotDeleteOnlineFiles_def Let_def)
qed

text \<open>A sweep that evicts one path and keeps an Offline one, and the second sweep after it.\<close>

theorem sweep_twice_witness:
  "slotDeleteOnlineFiles 1000
     \<lparr>syncModes =
        [([''docs'', ''report.pdf''],
          \<lparr>syncMode = SYNCMODE_ONLINE, downloadStatus = SYNCMODE_DOWNLOADED_YES, lastAccessAt = 300\<rparr>),
         ([''keep''],
          \<lparr>syncMode = SYNCMODE_OFFLINE, downloadStatus = SYNCMODE_DOWNLOADED_YES, lastAccessAt = 0\<rparr>)],
      fileRecords = [],
      cachedFiles =
        [(''docs'', Dir [(''report.pdf'', File \<lparr>writeUser = True, inUse = False, permsLocked = False\<rparr>)]),
         (''keep'', File \<lparr>writeUser = True, inUse = False, permsLocked = False\<rparr>)]\<rparr>
   = Some
     \<lparr>syncModes =
        [([''keep''],
          \<lparr>syncMode = SYNCMODE_OFFLINE, downloadStatus = SYNCMODE_DOWNLOADED_YES, lastAccessAt = 0\<rparr>)],
      fileRecords = [],
      cachedFiles =
        [(''docs'', Dir []), (''keep'', File \<lparr>writeUser = True, inUse = False, permsLocked = False\<rparr>)]\<rparr>
   \<and> slotDeleteOnlineFiles 1000
     \<lparr>syncModes =
        [([''keep''],
          \<lparr>syncMode = SYNCMODE_OFFLINE, downloadStatus = SYNCMODE_DOWNLOADED_YES, lastAccessAt = 0\<rparr>)],
      fileRecords = [],
      cachedFiles =
        [(''docs'', Dir []), (''keep'', File \<lparr>writeUser = True, inUse = False, permsLocked = False\<rparr>)]\<rparr>
   = Some
     \<lparr>syncModes =
        [([''keep''],
          \<lparr>syncMode = SYNCMODE_OFFLINE, downloadStatus = SYNCMODE_DOWNLOADED_YES, lastAccessAt = 0\<rparr>)],
      fileRecords = [],
      cachedFiles =
        [(''docs'', Dir []), (''keep'', File \<lparr>writeUser = True, inUse = False, permsLocked = False\<rparr>)]\<rparr>"
proof -
  have run: "slotDeleteOnlineFiles 1000
     \<lparr>syncModes =
        [([''docs'', ''report.pdf''],
          \<lparr>syncMode = SYNCMODE_ONLINE, downloadStatus = SYNCMODE_DOWNLOADED_YES, lastAccessAt = 300\<rparr>),
         ([''keep''],
          \<lparr>syncMode = SYNCMODE_OFFLINE, downloadStatus = SYNCMODE_DOWNLOADED_YES, lastAccessAt = 0\<rparr>)],
      fileRecords = [],
      cachedFiles =
        [(''docs'', Dir [(''report.pdf'', File \<lparr>writeUser = True, inUse = False, permsLocked = False\<rparr>)]),
         (''keep'', File \<lparr>writeUser = True, inUse = False, permsLocked = False\<rparr>)]\<rparr>
   = Some
     \<lparr>syncModes =
        [([''keep''],
          \<lparr>syncMode = SYNCMODE_OFFLINE, downloadStatus = SYNCMODE_DOWNLOADED_YES, lastAccessAt = 0\<rparr>)],
      fileRecords = [],
      cachedFiles =
        [(''docs'', Dir []), (''keep'', File \<lparr>writeUser = True, inUse = False, permsLocked = False\<rparr>)]\<rparr>"
    by (simp add: sweep_eval)
  from sweep_twice [OF run] run show ?thesis
    by simp
qed

subsection \<open>C9\<close>

text \<open>C9. When an evicted path names a directory and every file below it can be removed (at
  once or by the retry), the sweep removes every regular file below the directory and
  keeps the directory itself and every directory below it, emptied: \<^verbatim>\<open>removeDirs\<close> never
  removes a directory. When the path names a regular file that can be removed, the file
  is removed directly and the path names nothing afterwards.\<close>

theorem removeDirs_empties_but_keeps_directories:
  assumes "eviction_due now (syncModes st) item"
  shows "(lookup (cachedFiles st) item = Some (Dir d)
          \<and> (\<forall>a \<in> set (files_below d). deletable a) \<longrightarrow>
            sweep_item now item st =
              Some (st\<lparr>cachedFiles := put_dir item (only_dirs d) (cachedFiles st),
                       fileRecords := deleteFileRecord item True (fileRecords st),
                       syncModes := deleteSyncMode item (syncModes st)\<rparr>)
            \<and> lookup (put_dir item (only_dirs d) (cachedFiles st)) item = Some (Dir (only_dirs d))
            \<and> files_below (only_dirs d) = [])
       \<and> (lookup (cachedFiles st) item = Some (File a) \<and> can_remove a \<longrightarrow>
            sweep_item now item st =
              Some (st\<lparr>cachedFiles := unlink item (cachedFiles st),
                       fileRecords := deleteFileRecord item False (fileRecords st),
                       syncModes := deleteSyncMode item (syncModes st)\<rparr>)
            \<and> lookup (unlink item (cachedFiles st)) item = None)"
proof -
  have dir_case: "sweep_item now item st =
      Some (st\<lparr>cachedFiles := put_dir item (only_dirs d) (cachedFiles st),
               fileRecords := deleteFileRecord item True (fileRecords st),
               syncModes := deleteSyncMode item (syncModes st)\<rparr>)"
    if dir: "lookup (cachedFiles st) item = Some (Dir d)"
      and files: "\<forall>a \<in> set (files_below d). deletable a"
  proof -
    from dir files have "fst (removeDirs item (cachedFiles st))"
      by (simp add: removeDirs_dir(1))
    with dir have "snd (removeDirs item (cachedFiles st)) = put_dir item (only_dirs d) (cachedFiles st)"
      by (rule removeDirs_dir(2))
    moreover from dir have "qdir_exists (cachedFiles st) item"
      by (simp add: qdir_exists_def)
    ultimately show ?thesis
      using assms by (simp add: sweep_item_def evict_def)
  qed
  have file_case: "sweep_item now item st =
      Some (st\<lparr>cachedFiles := unlink item (cachedFiles st),
               fileRecords := deleteFileRecord item False (fileRecords st),
               syncModes := deleteSyncMode item (syncModes st)\<rparr>)"
    if is_file: "lookup (cachedFiles st) item = Some (File a)" and ok: "can_remove a"
  proof -
    from is_file have "\<not> qdir_exists (cachedFiles st) item"
      by (simp add: qdir_exists_def)
    moreover from is_file ok
    have "remove_while_exists item (cachedFiles st) = Some (unlink item (cachedFiles st))"
      by (simp add: remove_while_exists_cases)
    ultimately show ?thesis
      using assms by (simp add: sweep_item_def evict_def)
  qed
  from dir_case file_case show ?thesis
    by (simp add: files_below_only_dirs lookup_put_dir_self lookup_unlink_self)
qed

text \<open>A directory with a file and a subdirectory holding a file: both files go, both
  directories stay.\<close>

theorem removeDirs_empties_but_keeps_directories_witness:
  "eviction_due 100
     [([''d''], \<lparr>syncMode = SYNCMODE_ONLINE, downloadStatus = SYNCMODE_DOWNLOADED_YES, lastAccessAt = 0\<rparr>)]
     [''d'']
   \<and> only_dirs [(''f'', File \<lparr>writeUser = True, inUse = False, permsLocked = False\<rparr>),
                 (''s'', Dir [(''g'', File \<lparr>writeUser = True, inUse = False, permsLocked = False\<rparr>)])]
       = [(''s'', Dir [])]
   \<and> sweep_item 100 [''d'']
     \<lparr>syncModes =
        [([''d''], \<lparr>syncMode = SYNCMODE_ONLINE, downloadStatus = SYNCMODE_DOWNLOADED_YES, lastAccessAt = 0\<rparr>)],
      fileRecords = [],
      cachedFiles =
        [(''d'', Dir [(''f'', File \<lparr>writeUser = True, inUse = False, permsLocked = False\<rparr>),
                     (''s'', Dir [(''g'', File \<lparr>writeUser = True, inUse = False, permsLocked = False\<rparr>)])])]\<rparr>
     = Some \<lparr>syncModes = [], fileRecords = [], cachedFiles = [(''d'', Dir [(''s'', Dir [])])]\<rparr>"
proof -
  let ?a = "\<lparr>writeUser = True, inUse = False, permsLocked = False\<rparr>"
  let ?d = "[(''f'', File ?a), (''s'', Dir [(''g'', File ?a)])]"
  let ?st = "\<lparr>syncModes =
        [([''d''], \<lparr>syncMode = SYNCMODE_ONLINE, downloadStatus = SYNCMODE_DOWNLOADED_YES, lastAccessAt = 0\<rparr>)],
      fileRecords = [], cachedFiles = [(''d'', Dir ?d)]\<rparr>"
  have due: "eviction_due 100 (syncModes ?st) [''d'']"
    by (simp add: eviction_due_record)
  have dir: "lookup (cachedFiles ?st) [''d''] = Some (Dir ?d)"
    by simp
  have files: "\<forall>a \<in> set (files_below ?d). deletable a"
    by (simp add: deletable_def)
  have skeleton: "only_dirs ?d = [(''s'', Dir [])]"
    by simp
  from removeDirs_empties_but_keeps_directories [OF due, of ?d ?a] dir files skeleton due
  show ?thesis
    by (simp add: deleteFileRecord_def deleteSyncMode_def)
qed

text \<open>The same directory through the whole sweep: afterwards the directory and its
  subdirectory still exist.\<close>

theorem directories_remain_counterexample:
  "slotDeleteOnlineFiles 100
     \<lparr>syncModes =
        [([''d''], \<lparr>syncMode = SYNCMODE_ONLINE, downloadStatus = SYNCMODE_DOWNLOADED_YES, lastAccessAt = 0\<rparr>)],
      fileRecords = [],
      cachedFiles =
        [(''d'', Dir [(''f'', File \<lparr>writeUser = True, inUse = False, permsLocked = False\<rparr>),
                     (''s'', Dir [(''g'', File \<lparr>writeUser = True, inUse = False, permsLocked = False\<rparr>)])])]\<rparr>
   = Some \<lparr>syncModes = [], fileRecords = [], cachedFiles = [(''d'', Dir [(''s'', Dir [])])]\<rparr>
   \<and> qdir_exists [(''d'', Dir [(''s'', Dir [])])] [''d'']
   \<and> qdir_exists [(''d'', Dir [(''s'', Dir [])])] [''d'', ''s'']"
  by (simp add: sweep_eval)

subsection \<open>C10\<close>

text \<open>C10. For an evicted path that is not a directory, the sweep calls \<^verbatim>\<open>QFile::remove\<close> as long
  as the file exists. When the loop returns for a path that existed, the path named a
  regular file and the removal succeeded. For an existing file whose removal fails the
  loop never ends: the sweep does not return, and no later path of the snapshot is
  processed.\<close>

theorem file_loop_never_ends:
  assumes "getSyncModePaths (syncModes st) = before @ item # later"
    and "sweep_items now before st = Some st1"
    and "eviction_due now (syncModes st1) item"
    and "lookup (cachedFiles st1) item = Some (File a)"
    and "\<not> can_remove a"
  shows "remove_while_exists item (cachedFiles st1) = None
       \<and> slotDeleteOnlineFiles now st = None
       \<and> (\<forall>p es es'. remove_while_exists p es = Some es' \<and> qfile_exists es p \<longrightarrow>
            (\<exists>b. lookup es p = Some (File b) \<and> can_remove b) \<and> es' = qfile_remove p es)"
proof -
  from assms(4,5) have loop: "remove_while_exists item (cachedFiles st1) = None"
    by (simp add: remove_while_exists_cases)
  from assms(4) have "\<not> qdir_exists (cachedFiles st1) item"
    by (simp add: qdir_exists_def)
  with loop assms(3) have "sweep_item now item st1 = None"
    by (simp add: sweep_item_def evict_def)
  then have "sweep_items now (item # later) st1 = None"
    by simp
  with assms(2) have "sweep_items now (before @ item # later) st = None"
    by (simp add: sweep_items_append)
  with assms(1) have sweep: "slotDeleteOnlineFiles now st = None"
    by (simp add: slotDeleteOnlineFiles_def)
  have "(\<exists>b. lookup es p = Some (File b) \<and> can_remove b) \<and> es' = qfile_remove p es"
    if "remove_while_exists p es = Some es'" and "qfile_exists es p" for p es es'
    using that
    by (auto simp: remove_while_exists_cases qfile_exists_def qfile_remove_def
        split: option.splits node.splits if_splits)
  with loop sweep show ?thesis by blast
qed

text \<open>Three Online files of which the second is read-only: the first is evicted, the loop for
  the second never ends, and the sweep does not return.\<close>

theorem file_loop_never_ends_witness:
  "getSyncModePaths
     [([''a''], \<lparr>syncMode = SYNCMODE_ONLINE, downloadStatus = SYNCMODE_DOWNLOADED_YES, lastAccessAt = 0\<rparr>),
      ([''b''], \<lparr>syncMode = SYNCMODE_ONLINE, downloadStatus = SYNCMODE_DOWNLOADED_YES, lastAccessAt = 0\<rparr>),
      ([''c''], \<lparr>syncMode = SYNCMODE_ONLINE, downloadStatus = SYNCMODE_DOWNLOADED_YES, lastAccessAt = 0\<rparr>)]
     = [[''a'']] @ [''b''] # [[''c'']]
   \<and> \<not> can_remove \<lparr>writeUser = False, inUse = False, permsLocked = False\<rparr>
   \<and> slotDeleteOnlineFiles 100
     \<lparr>syncModes =
        [([''a''], \<lparr>syncMode = SYNCMODE_ONLINE, downloadStatus = SYNCMODE_DOWNLOADED_YES, lastAccessAt = 0\<rparr>),
         ([''b''], \<lparr>syncMode = SYNCMODE_ONLINE, downloadStatus = SYNCMODE_DOWNLOADED_YES, lastAccessAt = 0\<rparr>),
         ([''c''], \<lparr>syncMode = SYNCMODE_ONLINE, downloadStatus = SYNCMODE_DOWNLOADED_YES, lastAccessAt = 0\<rparr>)],
      fileRecords = [],
      cachedFiles =
        [(''a'', File \<lparr>writeUser = True, inUse = False, permsLocked = False\<rparr>),
         (''b'', File \<lparr>writeUser = False, inUse = False, permsLocked = False\<rparr>),
         (''c'', File \<lparr>writeUser = True, inUse = False, permsLocked = False\<rparr>)]\<rparr>
   = None"
proof -
  let ?r = "\<lparr>syncMode = SYNCMODE_ONLINE, downloadStatus = SYNCMODE_DOWNLOADED_YES, lastAccessAt = 0\<rparr>"
  let ?ok = "\<lparr>writeUser = True, inUse = False, permsLocked = False\<rparr>"
  let ?ro = "\<lparr>writeUser = False, inUse = False, permsLocked = False\<rparr>"
  let ?st = "\<lparr>syncModes = [([''a''], ?r), ([''b''], ?r), ([''c''], ?r)], fileRecords = [],
      cachedFiles = [(''a'', File ?ok), (''b'', File ?ro), (''c'', File ?ok)]\<rparr>"
  let ?st1 = "\<lparr>syncModes = [([''b''], ?r), ([''c''], ?r)], fileRecords = [],
      cachedFiles = [(''b'', File ?ro), (''c'', File ?ok)]\<rparr>"
  have paths: "getSyncModePaths (syncModes ?st) = [[''a'']] @ [''b''] # [[''c'']]"
    by (simp add: getSyncModePaths_def)
  have first: "sweep_items 100 [[''a'']] ?st = Some ?st1"
    by (simp add: sweep_eval)
  have due: "eviction_due 100 (syncModes ?st1) [''b'']"
    by (simp add: eviction_due_record)
  have is_file: "lookup (cachedFiles ?st1) [''b''] = Some (File ?ro)"
    by simp
  have blocked: "\<not> can_remove ?ro"
    by (simp add: can_remove_def)
  from file_loop_never_ends [OF paths first due is_file blocked] paths blocked
  show ?thesis
    by simp
qed

end
